theory Spec2Isabelle
  imports Complex_Main "HOL-Library.AList" "HOL-Library.Multiset"
begin

section \<open>Account manager of the credential-pooling proxy\<close>

text \<open>
  A shallow embedding of the multi-account manager (class \<open>AccountManager\<close> and the
  module-level helpers \<open>parseRateLimitReason\<close>, \<open>defaultRateLimitMs\<close>,
  \<open>getModelCategory\<close>, \<open>getCachedResetTime\<close>), of \<open>isQuotaBlacklisted\<close> and of
  \<open>isAccountDisabled\<close>.

  Conventions.
  \<^item> JavaScript numbers that carry times, durations and percentages are \<open>rat\<close>
    (\<open>Math.random() * 2000\<close> is not an integer); counters and HTTP status codes are
    \<open>int\<close>. \<open>NaN\<close> and the infinities are not modelled.
  \<^item> Strings are lists of 8-bit characters, so a body is taken to consist of code units
    below 256.
  \<^item> \<open>null\<close>/\<open>undefined\<close> is \<open>None\<close>. Where the source tests truthiness, the model
    writes the test out (\<open>0\<close> and the empty string are falsy).
  \<^item> The clock \<open>Date.now()\<close>, the built-in \<open>JSON.parse\<close> and the modules that the
    account manager imports are inputs of the model.
  \<^item> Log output and the writes that mirror an account into the external credential
    store are dropped; the store is read through the environment.
  \<^item> A call runs to its end before the next one starts.
\<close>

subsection \<open>Strings\<close>

text \<open>\<open>String.prototype.toLowerCase\<close> on code units below 256: A-Z and the Latin-1
  capitals (U+00C0 to U+00DE except the multiplication sign U+00D7) move up by 32.\<close>

definition toLowerChar :: "char \<Rightarrow> char" where
  "toLowerChar c =
     (let n = (of_char c :: nat)
      in if (65 \<le> n \<and> n \<le> 90) \<or> (192 \<le> n \<and> n \<le> 222 \<and> n \<noteq> 215)
         then char_of (n + 32) else c)"

definition toLowerCase :: "string \<Rightarrow> string" where
  "toLowerCase s = map toLowerChar s"

definition startsWith :: "string \<Rightarrow> string \<Rightarrow> bool" where
  "startsWith s p = (take (length p) s = p)"

text \<open>\<open>s.includes(k)\<close>: \<open>k\<close> occurs in \<open>s\<close> as a contiguous run.\<close>

fun str_includes :: "string \<Rightarrow> string \<Rightarrow> bool" where
  "str_includes [] k = (k = [])"
| "str_includes (c # cs) k = (startsWith (c # cs) k \<or> str_includes cs k)"

text \<open>\<open>String.prototype.trim\<close> removes white space and line terminators at both ends;
  below 256 these are TAB, LF, VT, FF, CR, space and the no-break space.\<close>

definition isTrimSpace :: "char \<Rightarrow> bool" where
  "isTrimSpace c = (let n = (of_char c :: nat) in (9 \<le> n \<and> n \<le> 13) \<or> n = 32 \<or> n = 160)"

definition trim :: "string \<Rightarrow> string" where
  "trim s = rev (dropWhile isTrimSpace (rev (dropWhile isTrimSpace s)))"

subsection \<open>JSON values\<close>

text \<open>The value that \<open>JSON.parse\<close> returns. A number keeps its source text: the code
  only asks whether a value is a string, an array or an object with some property. An
  object lists each of its properties once.\<close>

datatype json =
    JNull
  | JBool bool
  | JNumber string
  | JString string
  | JArray "json list"
  | JObject "(string \<times> json) list"

text \<open>\<open>v?.k\<close> for the property names the classifier reads (\<open>error\<close>, \<open>details\<close>,
  \<open>message\<close>, \<open>status\<close>, \<open>reason\<close>): \<open>undefined\<close> on \<open>undefined\<close> and \<open>null\<close> by
  the optional chaining, \<open>undefined\<close> on primitives and arrays, which have no property
  of these names, and the own property of an object.\<close>

fun get_prop :: "json option \<Rightarrow> string \<Rightarrow> json option" where
  "get_prop (Some (JObject kvs)) k = map_of kvs k"
| "get_prop _ k = None"

subsection \<open>Rate-limit classifier\<close>

datatype RateLimitReason =
    quota_exhausted
  | rate_limit_exceeded
  | model_capacity_exhausted
  | server_error
  | unknown

text \<open>The loop over \<open>json.error.details\<close>: the first entry whose \<open>reason\<close> is one of the
  three known strings decides; an entry with any other \<open>reason\<close> is passed over.\<close>

fun details_reason :: "json list \<Rightarrow> RateLimitReason option" where
  "details_reason [] = None"
| "details_reason (detail # rest) =
     (case get_prop (Some detail) ''reason'' of
        Some (JString reason) \<Rightarrow>
          if reason = ''QUOTA_EXHAUSTED'' then Some quota_exhausted
          else if reason = ''RATE_LIMIT_EXCEEDED'' then Some rate_limit_exceeded
          else if reason = ''MODEL_CAPACITY_EXHAUSTED'' then Some model_capacity_exhausted
          else details_reason rest
      | _ \<Rightarrow> details_reason rest)"

definition rate_limit_keywords :: "string \<Rightarrow> bool" where
  "rate_limit_keywords lower =
     (str_includes lower ''per minute'' \<or> str_includes lower ''rate limit''
      \<or> str_includes lower ''too many requests'')"

text \<open>How the body of the \<open>try\<close> block ends: with a \<open>return\<close>, with an exception (which
  the empty \<open>catch\<close> swallows), or by running to its end.\<close>

datatype try_result = Returned RateLimitReason | Threw | Completed

text \<open>
  The statements of the \<open>try\<close> block after \<open>JSON.parse\<close> has returned \<open>json\<close>.
  In the branch for \<open>status === "RESOURCE_EXHAUSTED"\<close> the source reads \<open>msgLower\<close>,
  a \<open>const\<close> declared inside the block of the preceding \<open>if\<close> and so out of scope
  there: evaluating it raises a ReferenceError, whatever the message is.
\<close>

definition structured_reason :: "json \<Rightarrow> try_result" where
  "structured_reason json =
     (let error = get_prop (Some json) ''error'';
          details = get_prop error ''details''
      in case (case details of Some (JArray ds) \<Rightarrow> details_reason ds | _ \<Rightarrow> None) of
           Some r \<Rightarrow> Returned r
         | None \<Rightarrow>
             (let message = get_prop error ''message''
              in if (case message of
                       Some (JString m) \<Rightarrow> rate_limit_keywords (toLowerCase m)
                     | _ \<Rightarrow> False)
                 then Returned rate_limit_exceeded
                 else if get_prop error ''status'' = Some (JString ''RESOURCE_EXHAUSTED'')
                 then Threw
                 else Completed))"

text \<open>The whole \<open>if (trimmed.startsWith("{") || trimmed.startsWith("[")) { try ... }\<close>.
  \<open>JSON_parse\<close> is the built-in; \<open>None\<close> stands for its SyntaxError.\<close>

definition structured_verdict ::
  "(string \<Rightarrow> json option) \<Rightarrow> string \<Rightarrow> RateLimitReason option" where
  "structured_verdict JSON_parse errorText =
     (let trimmed = trim errorText
      in if startsWith trimmed ''{'' \<or> startsWith trimmed ''[''
         then (case JSON_parse trimmed of
                 None \<Rightarrow> None
               | Some json \<Rightarrow>
                   (case structured_reason json of Returned r \<Rightarrow> Some r | _ \<Rightarrow> None))
         else None)"

definition keyword_scan :: "string \<Rightarrow> RateLimitReason" where
  "keyword_scan lower =
     (if str_includes lower ''per minute'' \<or> str_includes lower ''rate limit''
         \<or> str_includes lower ''too many requests''
      then rate_limit_exceeded
      else if str_includes lower ''model_capacity'' \<or> str_includes lower ''capacity''
      then model_capacity_exhausted
      else if str_includes lower ''quota'' then quota_exhausted
      else if str_includes lower ''exhausted'' then rate_limit_exceeded
      else unknown)"

definition parseRateLimitReason ::
  "(string \<Rightarrow> json option) \<Rightarrow> int \<Rightarrow> string \<Rightarrow> RateLimitReason" where
  "parseRateLimitReason JSON_parse statusCode errorText =
     (if statusCode \<noteq> 429
      then (if statusCode \<ge> 500 then server_error else unknown)
      else (case structured_verdict JSON_parse errorText of
              Some r \<Rightarrow> r
            | None \<Rightarrow> keyword_scan (toLowerCase errorText)))"

subsection \<open>Cool-down policy\<close>

definition defaultRateLimitMs :: "RateLimitReason \<Rightarrow> int \<Rightarrow> rat" where
  "defaultRateLimitMs reason failures =
     (case reason of
        quota_exhausted \<Rightarrow>
          if failures \<le> 1 then 5 * 60000
          else if failures = 2 then 15 * 60000
          else if failures = 3 then 60 * 60000
          else 2 * 60 * 60000
      | rate_limit_exceeded \<Rightarrow> 30000
      | model_capacity_exhausted \<Rightarrow> 15000
      | server_error \<Rightarrow> 20000
      | unknown \<Rightarrow> 60000)"

subsection \<open>Model categories\<close>

datatype ModelCategory = cat_llm | cat_image | cat_unknown

text \<open>An optional string parameter is truthy when it is present and not empty.\<close>

definition given :: "string option \<Rightarrow> bool" where
  "given x = (case x of None \<Rightarrow> False | Some v \<Rightarrow> v \<noteq> [])"

definition getModelCategory :: "string option \<Rightarrow> ModelCategory" where
  "getModelCategory modelId =
     (case modelId of
        None \<Rightarrow> cat_unknown
      | Some m \<Rightarrow>
          if m = [] then cat_unknown
          else (let lower = toLowerCase m
                in if str_includes lower ''image'' \<or> str_includes lower ''imagen''
                   then cat_image
                   else if str_includes lower ''claude'' \<or> str_includes lower ''gpt''
                        \<or> str_includes lower ''gemini'' \<or> str_includes lower ''sonnet''
                        \<or> str_includes lower ''opus'' \<or> str_includes lower ''flash''
                        \<or> str_includes lower ''pro''
                   then cat_llm
                   else cat_unknown))"

subsection \<open>Accounts and the manager's state\<close>

record CategoryRateLimit =
  until :: rat
  failures :: int

text \<open>The six fields that \<open>save\<close> writes, as one record; the field \<open>id\<close> of the source
  is \<open>id'\<close> here. \<open>Account\<close> extends it by the rate-limit state.\<close>

record Credentials =
  id' :: string
  email :: string
  accessToken :: string
  refreshToken :: string
  expiresAt :: rat
  projectId :: "string option"

record Account = Credentials +
  categoryRateLimits :: "ModelCategory \<Rightarrow> CategoryRateLimit option"
  rateLimitedUntil :: "rat option"
  consecutiveFailures :: int

text \<open>An entry of the external credential store (\<open>authStore\<close>), with the fields that
  \<open>hydrateFromAuthStore\<close> reads.\<close>

record StoredAccount =
  st_id :: string
  st_email :: "string option"
  st_login :: "string option"
  st_accessToken :: string
  st_refreshToken :: "string option"
  st_expiresAt :: "rat option"
  st_projectId :: "string option"

text \<open>
  The fields of \<open>AccountManager\<close>. \<open>accounts\<close> is the \<open>Map\<close> in insertion order, as an
  association list that \<open>AList.update\<close> (replace in place, else append) and
  \<open>AList.delete\<close> keep free of duplicate keys. \<open>accountLocks\<close> keeps only which ids have
  an entry. \<open>dataFile\<close> is the content of \<open>accounts.json\<close>: \<open>None\<close> when the file is
  missing or holds no \<open>accounts\<close> array. File-system calls are taken to succeed.
\<close>

record AccountManager =
  accounts :: "(string \<times> Account) list"
  loaded :: bool
  lastUsedAccount :: "(string \<times> rat) option"
  accountQueue :: "string list"
  inFlightAccounts :: "string set"
  accountLocks :: "string set"
  lastCallByAccount :: "string \<Rightarrow> rat option"
  dataFile :: "Credentials list option"

definition new_AccountManager :: AccountManager where
  "new_AccountManager =
     \<lparr>accounts = [], loaded = False, lastUsedAccount = None, accountQueue = [],
      inFlightAccounts = {}, accountLocks = {}, lastCallByAccount = (\<lambda>_. None),
      dataFile = None\<rparr>"

text \<open>An entry of \<open>quota-cache.json\<close>'s \<open>bars\<close>.\<close>

record Bar =
  bar_key :: string
  resetTime :: "string option"

text \<open>
  What a call reads from outside the manager. \<open>now\<close> is \<open>Date.now()\<close> at the start of
  the call and \<open>now_later\<close> a reading taken further down in the same call.
  \<open>refreshAccessToken\<close> gives the new access token and \<open>expiresIn\<close>, \<open>None\<close> when it
  throws; \<open>getProjectID\<close> gives an id or \<open>null\<close>. \<open>quotaCache\<close> maps a key of
  \<open>quota-cache.json\<close> to the \<open>bars\<close> of its entry (\<open>None\<close> at top level: no readable
  file). \<open>disabledAccounts\<close> is the field of the routing configuration and
  \<open>quotaBlacklist\<close> the map of the quota blacklist module.
\<close>

record Env =
  now :: rat
  now_later :: rat
  JSON_parse :: "string \<Rightarrow> json option"
  Date_parse :: "string \<Rightarrow> rat option"
  Math_random :: rat
  parseRetryDelay :: "string \<Rightarrow> string option \<Rightarrow> rat option"
  quotaCache :: "(string \<Rightarrow> Bar list option) option"
  disabledAccounts :: "string list option"
  quotaBlacklist :: "string \<Rightarrow> rat option"
  getAccountModelQuotaPercent :: "string \<Rightarrow> string \<Rightarrow> string \<Rightarrow> rat option"
  quotaReservePercent :: "rat option"
  refreshAccessToken :: "string \<Rightarrow> (string \<times> rat) option"
  getProjectID :: "string \<Rightarrow> string option"
  generateMockProjectId :: string
  authStore_listAccounts :: "StoredAccount list"
  authStore_getAccount :: "string \<Rightarrow> StoredAccount option"

definition credentials_of :: "Account \<Rightarrow> Credentials" where
  "credentials_of acc =
     \<lparr>id' = id' acc, email = email acc, accessToken = accessToken acc,
      refreshToken = refreshToken acc, expiresAt = expiresAt acc, projectId = projectId acc\<rparr>"

text \<open>\<open>{...acc, categoryRateLimits: new Map(), rateLimitedUntil: null,
  consecutiveFailures: 0}\<close>\<close>

definition fresh_account :: "Credentials \<Rightarrow> Account" where
  "fresh_account c =
     \<lparr>id' = id' c, email = email c, accessToken = accessToken c,
      refreshToken = refreshToken c, expiresAt = expiresAt c, projectId = projectId c,
      categoryRateLimits = (\<lambda>_. None), rateLimitedUntil = None, consecutiveFailures = 0\<rparr>"

subsection \<open>Persistence\<close>

definition save :: "AccountManager \<Rightarrow> AccountManager" where
  "save m = m\<lparr>dataFile := Some (map (\<lambda>(k, acc). credentials_of acc) (accounts m))\<rparr>"

definition stored_account :: "StoredAccount \<Rightarrow> Account" where
  "stored_account stored =
     \<lparr>id' = st_id stored,
      email = (case st_email stored of
                 Some e \<Rightarrow> if e \<noteq> [] then e
                           else (case st_login stored of
                                   Some l \<Rightarrow> if l \<noteq> [] then l else st_id stored
                                 | None \<Rightarrow> st_id stored)
               | None \<Rightarrow> (case st_login stored of
                            Some l \<Rightarrow> if l \<noteq> [] then l else st_id stored
                          | None \<Rightarrow> st_id stored)),
      accessToken = st_accessToken stored,
      refreshToken = (case st_refreshToken stored of Some r \<Rightarrow> r | None \<Rightarrow> []),
      expiresAt = (case st_expiresAt stored of Some e \<Rightarrow> e | None \<Rightarrow> 0),
      projectId = (if given (st_projectId stored) then st_projectId stored else None),
      categoryRateLimits = (\<lambda>_. None), rateLimitedUntil = None, consecutiveFailures = 0\<rparr>"

definition hydrate_one :: "StoredAccount \<Rightarrow> AccountManager \<Rightarrow> AccountManager" where
  "hydrate_one stored m =
     (if map_of (accounts m) (st_id stored) \<noteq> None then m
      else m\<lparr>accounts := AList.update (st_id stored) (stored_account stored) (accounts m)\<rparr>)"

definition hydrateFromAuthStore ::
  "Env \<Rightarrow> string option \<Rightarrow> AccountManager \<Rightarrow> AccountManager" where
  "hydrateFromAuthStore env accountId m =
     (let fromStore =
            (case accountId of
               None \<Rightarrow> authStore_listAccounts env
             | Some a \<Rightarrow>
                 if a = [] then authStore_listAccounts env
                 else (case authStore_getAccount env a of None \<Rightarrow> [] | Some st \<Rightarrow> [st]))
      in fold hydrate_one fromStore m)"

definition load_one :: "Credentials \<Rightarrow> AccountManager \<Rightarrow> AccountManager" where
  "load_one acc m = m\<lparr>accounts := AList.update (id' acc) (fresh_account acc) (accounts m)\<rparr>"

definition load :: "Env \<Rightarrow> AccountManager \<Rightarrow> AccountManager" where
  "load env m =
     (let m1 = (case dataFile m of None \<Rightarrow> m | Some accs \<Rightarrow> fold load_one accs m);
          m2 = (if accounts m1 = [] then hydrateFromAuthStore env None m1 else m1)
      in m2\<lparr>lastUsedAccount := None, loaded := True\<rparr>)"

definition ensureLoaded :: "Env \<Rightarrow> AccountManager \<Rightarrow> AccountManager" where
  "ensureLoaded env m = (if \<not> loaded m then load env m else m)"

subsection \<open>Registry and queue operations\<close>

definition addAccount :: "Credentials \<Rightarrow> AccountManager \<Rightarrow> AccountManager" where
  "addAccount account m =
     save (m\<lparr>accounts := AList.update (id' account) (fresh_account account) (accounts m),
             accountQueue := (if id' account \<in> set (accountQueue m) then accountQueue m
                              else accountQueue m @ [id' account])\<rparr>)"

text \<open>The two deleting branches of \<open>removeAccount\<close> do the same with the id found.\<close>

definition remove_by_id :: "string \<Rightarrow> AccountManager \<Rightarrow> AccountManager" where
  "remove_by_id k m =
     save (m\<lparr>accounts := AList.delete k (accounts m),
             accountQueue := remove1 k (accountQueue m),
             inFlightAccounts := inFlightAccounts m - {k},
             accountLocks := accountLocks m - {k},
             lastCallByAccount := (lastCallByAccount m)(k := None)\<rparr>)"

definition removeAccount :: "string \<Rightarrow> AccountManager \<Rightarrow> bool \<times> AccountManager" where
  "removeAccount accountIdOrEmail m =
     (if map_of (accounts m) accountIdOrEmail \<noteq> None
      then (True, remove_by_id accountIdOrEmail m)
      else (case find (\<lambda>(k, acc). email acc = accountIdOrEmail) (accounts m) of
              Some (k, acc) \<Rightarrow> (True, remove_by_id k m)
            | None \<Rightarrow> (False, m)))"

definition moveToEndOfQueue :: "string \<Rightarrow> AccountManager \<Rightarrow> AccountManager" where
  "moveToEndOfQueue accountId m =
     (if accountId \<in> set (accountQueue m)
      then m\<lparr>accountQueue := remove1 accountId (accountQueue m) @ [accountId]\<rparr>
      else m)"

definition ensureQueueInitialized :: "AccountManager \<Rightarrow> AccountManager" where
  "ensureQueueInitialized m =
     (if accountQueue m = [] \<and> accounts m \<noteq> []
      then m\<lparr>accountQueue := map fst (accounts m)\<rparr> else m)"

subsection \<open>Recording failures and successes\<close>

text \<open>\<open>x && x > now\<close> on a timestamp that may be \<open>null\<close>: \<open>0\<close> is falsy too.\<close>

definition truthy_after :: "rat option \<Rightarrow> rat \<Rightarrow> bool" where
  "truthy_after x t = (case x of None \<Rightarrow> False | Some u \<Rightarrow> u \<noteq> 0 \<and> u > t)"

text \<open>A write to a field of the account object stored under key \<open>k\<close>.\<close>

definition set_account :: "string \<Rightarrow> Account \<Rightarrow> AccountManager \<Rightarrow> AccountManager" where
  "set_account k acc m = m\<lparr>accounts := AList.update k acc (accounts m)\<rparr>"

text \<open>The branch shared by \<open>markRateLimited\<close> and \<open>markRateLimitedFromError\<close> that
  stores the lockout in the category's entry or in the global fields.\<close>

definition record_lockout ::
  "ModelCategory \<Rightarrow> string option \<Rightarrow> rat \<Rightarrow> Account \<Rightarrow> Account" where
  "record_lockout category modelId untilMs account =
     (if category \<noteq> cat_unknown \<and> given modelId
      then (let existing = (case categoryRateLimits account category of
                              Some e \<Rightarrow> e
                            | None \<Rightarrow> \<lparr>until = 0, failures = 0\<rparr>)
            in account\<lparr>categoryRateLimits :=
                 (categoryRateLimits account)
                   (category \<mapsto> \<lparr>until = untilMs, failures = failures existing + 1\<rparr>)\<rparr>)
      else account\<lparr>rateLimitedUntil := Some untilMs,
                   consecutiveFailures := consecutiveFailures account + 1\<rparr>)"

text \<open>\<open>durationMs\<close> defaults to 60000 in the source; the caller of the model passes it.\<close>

definition markRateLimited ::
  "rat \<Rightarrow> string \<Rightarrow> rat \<Rightarrow> string option \<Rightarrow> AccountManager \<Rightarrow> AccountManager" where
  "markRateLimited nowMs accountId durationMs modelId m =
     (case map_of (accounts m) accountId of
        None \<Rightarrow> m
      | Some account \<Rightarrow>
          set_account accountId
            (record_lockout (getModelCategory modelId) modelId (nowMs + durationMs) account) m)"

definition RESET_TIME_BUFFER_MS :: rat where
  "RESET_TIME_BUFFER_MS = 2000"

text \<open>\<open>Date.parse\<close> of a bar's \<open>resetTime\<close> when that is a non-empty string and the
  result is finite.\<close>

definition bar_reset_ms :: "Env \<Rightarrow> Bar \<Rightarrow> rat option" where
  "bar_reset_ms env bar =
     (case resetTime bar of
        None \<Rightarrow> None
      | Some t \<Rightarrow> if t = [] then None else Date_parse env t)"

fun earliest_reset :: "Env \<Rightarrow> Bar list \<Rightarrow> rat option \<Rightarrow> rat option" where
  "earliest_reset env [] earliest = earliest"
| "earliest_reset env (bar # bars) earliest =
     earliest_reset env bars
       (case bar_reset_ms env bar of
          None \<Rightarrow> earliest
        | Some ms \<Rightarrow>
            (case earliest of
               None \<Rightarrow> Some ms
             | Some e \<Rightarrow> if ms < e then Some ms else Some e))"

definition getCachedResetTime :: "Env \<Rightarrow> string \<Rightarrow> string option \<Rightarrow> rat option" where
  "getCachedResetTime env accountId modelId =
     (if \<not> given modelId then None
      else case quotaCache env of
        None \<Rightarrow> None
      | Some cache \<Rightarrow>
          (case cache (''antigravity:'' @ accountId) of
             None \<Rightarrow> None
           | Some bars \<Rightarrow>
               (let category = getModelCategory modelId;
                    lower = toLowerCase (case modelId of Some m \<Rightarrow> m | None \<Rightarrow> []);
                    targetKey =
                      (if category = cat_image then Some ''gimage''
                       else if category = cat_llm
                       then (if str_includes lower ''claude'' \<or> str_includes lower ''gpt''
                             then Some ''claude_gpt''
                             else if str_includes lower ''pro'' then Some ''gpro''
                             else if str_includes lower ''flash'' then Some ''gflash''
                             else None)
                       else None);
                    targeted =
                      (case targetKey of
                         None \<Rightarrow> None
                       | Some k \<Rightarrow>
                           (case find (\<lambda>b. bar_key b = k) bars of
                              None \<Rightarrow> None
                            | Some bar \<Rightarrow> bar_reset_ms env bar))
                in case targeted of
                     Some resetMs \<Rightarrow> Some (resetMs + RESET_TIME_BUFFER_MS)
                   | None \<Rightarrow>
                       (case earliest_reset env bars None of
                          None \<Rightarrow> None
                        | Some e \<Rightarrow>
                            if e = 0 then None else Some (e + RESET_TIME_BUFFER_MS)))))"

text \<open>The duration and the end of the lockout that \<open>markRateLimitedFromError\<close> computes,
  in the order of the source: cached reset time, retry delay, the short values for 429,
  the cool-down policy, the caller's cap.\<close>

definition falsy_time :: "rat option \<Rightarrow> bool" where
  "falsy_time x = (case x of None \<Rightarrow> True | Some u \<Rightarrow> u = 0)"

definition lockout_duration ::
  "Env \<Rightarrow> Account \<Rightarrow> string \<Rightarrow> int \<Rightarrow> string \<Rightarrow> string option \<Rightarrow> string option
     \<Rightarrow> rat option \<Rightarrow> RateLimitReason \<times> rat \<times> rat" where
  "lockout_duration env account accountId statusCode errorText retryAfterHeader modelId
       maxDurationMs =
     (let reason = parseRateLimitReason (JSON_parse env) statusCode errorText;
          retryDelayMs = parseRetryDelay env errorText retryAfterHeader;
          category = getModelCategory modelId;
          nowMs = now env;
          s0 = (0, None);
          s1 = (if reason = quota_exhausted \<and> given modelId
                then (case getCachedResetTime env accountId modelId of
                        None \<Rightarrow> s0
                      | Some cachedResetMs \<Rightarrow>
                          if cachedResetMs \<noteq> 0 \<and> cachedResetMs > nowMs
                          then (cachedResetMs - nowMs, Some cachedResetMs) else s0)
                else s0);
          s2 = (if falsy_time (snd s1)
                then (case retryDelayMs of
                        None \<Rightarrow> s1
                      | Some r \<Rightarrow> (max (r + 500) 2000, Some (nowMs + max (r + 500) 2000)))
                else s1);
          s3 = (if falsy_time (snd s2) \<and> statusCode = 429
                then (let d = (if reason = rate_limit_exceeded
                               then 2000 + Math_random env * 2000
                               else if reason = model_capacity_exhausted then 5000
                               else 10000)
                      in (d, Some (nowMs + d)))
                else s2);
          dflt = defaultRateLimitMs reason
                   (if category \<noteq> cat_unknown
                    then (case categoryRateLimits account category of
                            Some c \<Rightarrow> failures c
                          | None \<Rightarrow> 0) + 1
                    else consecutiveFailures account + 1);
          s4 = (case snd s3 of
                  None \<Rightarrow> (dflt, nowMs + dflt)
                | Some u \<Rightarrow> if u = 0 then (dflt, nowMs + dflt) else (fst s3, u));
          s5 = (if (case maxDurationMs of None \<Rightarrow> False | Some mx \<Rightarrow>
                      mx \<noteq> 0 \<and> reason \<noteq> quota_exhausted \<and> fst s4 > mx)
                then (case maxDurationMs of
                        Some mx \<Rightarrow> (mx, nowMs + mx)
                      | None \<Rightarrow> s4)
                else s4)
      in (reason, fst s5, snd s5))"

definition markRateLimitedFromError ::
  "Env \<Rightarrow> string \<Rightarrow> int \<Rightarrow> string \<Rightarrow> string option \<Rightarrow> string option \<Rightarrow> rat option
     \<Rightarrow> AccountManager \<Rightarrow> (RateLimitReason \<times> rat) option \<times> AccountManager" where
  "markRateLimitedFromError env accountId statusCode errorText retryAfterHeader modelId
       maxDurationMs m =
     (case map_of (accounts m) accountId of
        None \<Rightarrow> (None, m)
      | Some account \<Rightarrow>
          (case lockout_duration env account accountId statusCode errorText retryAfterHeader
                  modelId maxDurationMs of
             (reason, durationMs, untilMs) \<Rightarrow>
               (Some (reason, durationMs),
                set_account accountId
                  (record_lockout (getModelCategory modelId) modelId untilMs account) m)))"

definition markSuccess :: "string \<Rightarrow> string option \<Rightarrow> AccountManager \<Rightarrow> AccountManager" where
  "markSuccess accountId modelId m =
     (case map_of (accounts m) accountId of
        None \<Rightarrow> m
      | Some account \<Rightarrow>
          if getModelCategory modelId \<noteq> cat_unknown \<and> given modelId
          then set_account accountId
                 (account\<lparr>categoryRateLimits :=
                    (categoryRateLimits account)(getModelCategory modelId := None)\<rparr>) m
          else set_account accountId
                 (account\<lparr>rateLimitedUntil := None, consecutiveFailures := 0\<rparr>) m)"

definition isAccountRateLimited ::
  "rat \<Rightarrow> string \<Rightarrow> string option \<Rightarrow> AccountManager \<Rightarrow> bool" where
  "isAccountRateLimited nowMs accountId modelId m =
     (case map_of (accounts m) accountId of
        None \<Rightarrow> False
      | Some account \<Rightarrow>
          if (case rateLimitedUntil account of None \<Rightarrow> False | Some u \<Rightarrow> u > nowMs)
          then True
          else if given modelId \<and> getModelCategory modelId \<noteq> cat_unknown
          then (case categoryRateLimits account (getModelCategory modelId) of
                  None \<Rightarrow> False
                | Some catLimit \<Rightarrow> until catLimit > nowMs)
          else False)"

definition clear_account :: "string option \<Rightarrow> Account \<Rightarrow> Account" where
  "clear_account modelId account =
     (if given modelId \<and> getModelCategory modelId \<noteq> cat_unknown
      then account\<lparr>categoryRateLimits :=
             (categoryRateLimits account)(getModelCategory modelId := None)\<rparr>
      else (if rateLimitedUntil account \<noteq> None
            then account\<lparr>rateLimitedUntil := None, consecutiveFailures := 0\<rparr>
            else account)\<lparr>categoryRateLimits := (\<lambda>_. None)\<rparr>)"

definition clearAllRateLimits :: "string option \<Rightarrow> AccountManager \<Rightarrow> AccountManager" where
  "clearAllRateLimits modelId m =
     m\<lparr>accounts := map (\<lambda>(k, acc). (k, clear_account modelId acc)) (accounts m)\<rparr>"

subsection \<open>Eligibility filters\<close>

text \<open>\<open>isAccountDisabled\<close> of the routing configuration:
  \<open>config.disabledAccounts?.includes(key) ?? false\<close>.\<close>

definition isAccountDisabled :: "Env \<Rightarrow> string \<Rightarrow> string \<Rightarrow> bool" where
  "isAccountDisabled env provider accountId =
     (case disabledAccounts env of
        None \<Rightarrow> False
      | Some l \<Rightarrow> (provider @ '':'' @ accountId) \<in> set l)"

text \<open>\<open>isQuotaBlacklisted\<close>; that it also drops the expired entry does not change any
  later answer at the same clock reading.\<close>

definition isQuotaBlacklisted :: "Env \<Rightarrow> string \<Rightarrow> string \<Rightarrow> string \<Rightarrow> bool" where
  "isQuotaBlacklisted env provider accountId model =
     (case quotaBlacklist env (provider @ '':'' @ accountId @ '':'' @ model) of
        None \<Rightarrow> False
      | Some expiry \<Rightarrow> if expiry = 0 then False else \<not> (now env > expiry))"

text \<open>\<open>getSetting("quotaReservePercent") || 0\<close>\<close>

definition reservePercent :: "Env \<Rightarrow> rat" where
  "reservePercent env = (case quotaReservePercent env of None \<Rightarrow> 0 | Some p \<Rightarrow> p)"

definition hasModelQuota :: "Env \<Rightarrow> string option \<Rightarrow> AccountManager \<Rightarrow> string \<Rightarrow> bool" where
  "hasModelQuota env modelId m accountId =
     (case modelId of
        None \<Rightarrow> True
      | Some model \<Rightarrow>
          if model = [] then True
          else (case map_of (accounts m) accountId of
                  None \<Rightarrow> False
                | Some account \<Rightarrow>
                    if isQuotaBlacklisted env ''antigravity'' accountId model then False
                    else (case getAccountModelQuotaPercent env ''antigravity'' accountId model of
                            None \<Rightarrow> False
                          | Some quotaPercent \<Rightarrow> quotaPercent > reservePercent env)))"

definition hasIdleAccount :: "Env \<Rightarrow> AccountManager \<Rightarrow> bool" where
  "hasIdleAccount env m =
     list_ex (\<lambda>k. case map_of (accounts m) k of
                    None \<Rightarrow> False
                  | Some account \<Rightarrow>
                      if truthy_after (rateLimitedUntil account) (now env) then False
                      else k \<notin> inFlightAccounts m)
       (accountQueue m)"

text \<open>\<open>account.expiresAt > 0 && now > account.expiresAt - 5 * 60 * 1000\<close>\<close>

definition near_expiry :: "Env \<Rightarrow> Account \<Rightarrow> bool" where
  "near_expiry env account =
     (expiresAt account > 0 \<and> now env > expiresAt account - 5 * 60 * 1000)"

subsection \<open>Selection\<close>

record Selection =
  sel_accessToken :: string
  sel_projectId :: string
  sel_email :: string
  sel_accountId :: string

text \<open>\<open>ensureProjectId\<close> for the account object stored under key \<open>k\<close>, which
  currently is \<open>account\<close>.\<close>

definition resolve_project ::
  "Env \<Rightarrow> string \<Rightarrow> Account \<Rightarrow> AccountManager \<Rightarrow> string \<times> AccountManager" where
  "resolve_project env k account m =
     (let resolved = (case getProjectID env (accessToken account) of
                        None \<Rightarrow> generateMockProjectId env
                      | Some r \<Rightarrow> if r = [] then generateMockProjectId env else r)
      in (resolved, save (set_account k (account\<lparr>projectId := Some resolved\<rparr>) m)))"

definition ensureProjectId ::
  "Env \<Rightarrow> string \<Rightarrow> Account \<Rightarrow> AccountManager \<Rightarrow> string \<times> AccountManager" where
  "ensureProjectId env k account m =
     (case projectId account of
        None \<Rightarrow> resolve_project env k account m
      | Some p \<Rightarrow>
          if p \<noteq> [] \<and> p \<noteq> ''unknown'' then (p, m)
          else resolve_project env k account m)"

text \<open>The \<open>return { accessToken, projectId: await this.ensureProjectId(account), email,
  accountId }\<close> that ends every successful path.\<close>

definition hand_out ::
  "Env \<Rightarrow> string \<Rightarrow> Account \<Rightarrow> AccountManager \<Rightarrow> Selection option \<times> AccountManager" where
  "hand_out env k account m =
     (case ensureProjectId env k account m of
        (pid, m') \<Rightarrow>
          (Some \<lparr>sel_accessToken = accessToken account, sel_projectId = pid,
                 sel_email = email account, sel_accountId = id' account\<rparr>, m'))"

text \<open>The sticky test of the queue head, entered when \<open>forceRotate\<close> is false and the
  queue is not empty. \<open>None\<close> means that control falls through to the scan. A refresh
  that throws is logged and nothing else.\<close>

definition sticky_head ::
  "Env \<Rightarrow> bool \<Rightarrow> string option \<Rightarrow> AccountManager
     \<Rightarrow> (Selection option \<times> AccountManager) option" where
  "sticky_head env hasIdle modelId m =
     (case accountQueue m of
        [] \<Rightarrow> None
      | firstId # rest \<Rightarrow>
          (case map_of (accounts m) firstId of
             None \<Rightarrow> None
           | Some firstAccount \<Rightarrow>
               if truthy_after (rateLimitedUntil firstAccount) (now env) then None
               else if isAccountDisabled env ''antigravity'' firstId then None
               else if hasIdle \<and> firstId \<in> inFlightAccounts m then None
               else if \<not> hasModelQuota env modelId m firstId then None
               else (let refreshed =
                           (if near_expiry env firstAccount
                            then (case refreshAccessToken env (refreshToken firstAccount) of
                                    None \<Rightarrow> None
                                  | Some (tok, expiresIn) \<Rightarrow>
                                      Some (firstAccount\<lparr>accessToken := tok,
                                              expiresAt := now env + expiresIn * 1000\<rparr>))
                            else None);
                         account = (case refreshed of None \<Rightarrow> firstAccount | Some a \<Rightarrow> a);
                         m1 = (case refreshed of
                                 None \<Rightarrow> m
                               | Some a \<Rightarrow> save (set_account firstId a m))
                     in Some (hand_out env firstId account
                                (m1\<lparr>lastUsedAccount := Some (id' account, now env)\<rparr>)))))"

text \<open>The refresh of the scan and of \<open>getAccountById\<close>: new token, new expiry, the
  project id when none is known, then \<open>save\<close>.\<close>

definition refreshed_account :: "Env \<Rightarrow> Account \<Rightarrow> string \<Rightarrow> rat \<Rightarrow> Account" where
  "refreshed_account env account tok expiresIn =
     (let a1 = account\<lparr>accessToken := tok, expiresAt := now env + expiresIn * 1000\<rparr>
      in if given (projectId a1) then a1 else a1\<lparr>projectId := getProjectID env tok\<rparr>)"

text \<open>\<open>for (const accountId of this.accountQueue)\<close>. A refresh that throws sets
  \<open>rateLimitedUntil = now + 60000\<close> on the account and the loop goes on.\<close>

fun scan_queue ::
  "Env \<Rightarrow> bool \<Rightarrow> string option \<Rightarrow> string list \<Rightarrow> AccountManager
     \<Rightarrow> Selection option \<times> AccountManager" where
  "scan_queue env hasIdle modelId [] m = (None, m)"
| "scan_queue env hasIdle modelId (accountId # rest) m =
     (case map_of (accounts m) accountId of
        None \<Rightarrow> scan_queue env hasIdle modelId rest m
      | Some account \<Rightarrow>
          if isAccountDisabled env ''antigravity'' accountId
          then scan_queue env hasIdle modelId rest m
          else if truthy_after (rateLimitedUntil account) (now env)
          then scan_queue env hasIdle modelId rest m
          else if hasIdle \<and> accountId \<in> inFlightAccounts m
          then scan_queue env hasIdle modelId rest m
          else if \<not> hasModelQuota env modelId m accountId
          then scan_queue env hasIdle modelId rest m
          else if near_expiry env account
          then (case refreshAccessToken env (refreshToken account) of
                  None \<Rightarrow>
                    scan_queue env hasIdle modelId rest
                      (set_account accountId
                         (account\<lparr>rateLimitedUntil := Some (now env + 60000)\<rparr>) m)
                | Some (tok, expiresIn) \<Rightarrow>
                    (let a = refreshed_account env account tok expiresIn
                     in hand_out env accountId a
                          ((save (set_account accountId a m))
                             \<lparr>lastUsedAccount := Some (id' a, now_later env)\<rparr>)))
          else hand_out env accountId account
                 (m\<lparr>lastUsedAccount := Some (id' account, now_later env)\<rparr>))"

text \<open>\<open>getNextAvailableAccount\<close> in two parts: what it does before it looks at any
  account (\<open>ensureLoaded\<close>, hydration of an empty registry, \<open>ensureQueueInitialized\<close>),
  and the choice itself.\<close>

definition prepare :: "Env \<Rightarrow> AccountManager \<Rightarrow> AccountManager" where
  "prepare env m0 =
     (let m1 = ensureLoaded env m0;
          m2 = (if accounts m1 = [] then hydrateFromAuthStore env None m1 else m1)
      in ensureQueueInitialized m2)"

definition choose_account ::
  "Env \<Rightarrow> bool \<Rightarrow> string option \<Rightarrow> AccountManager \<Rightarrow> Selection option \<times> AccountManager" where
  "choose_account env forceRotate modelId m =
     (if accounts m = [] then (None, m)
      else (let hasIdle = hasIdleAccount env m
            in case (if \<not> forceRotate \<and> accountQueue m \<noteq> []
                     then sticky_head env hasIdle modelId m else None) of
                 Some r \<Rightarrow> r
               | None \<Rightarrow> scan_queue env hasIdle modelId (accountQueue m) m))"

definition getNextAvailableAccount ::
  "Env \<Rightarrow> bool \<Rightarrow> string option \<Rightarrow> AccountManager \<Rightarrow> Selection option \<times> AccountManager" where
  "getNextAvailableAccount env forceRotate modelId m0 =
     choose_account env forceRotate modelId (prepare env m0)"

text \<open>\<open>getAccountById\<close> likewise: \<open>ensureLoaded\<close> and the hydration of the one id, then
  the checks on the account found.\<close>

definition prepare_by_id :: "Env \<Rightarrow> string \<Rightarrow> AccountManager \<Rightarrow> AccountManager" where
  "prepare_by_id env accountId m0 =
     (let m1 = ensureLoaded env m0
      in if map_of (accounts m1) accountId = None
         then hydrateFromAuthStore env (Some accountId) m1 else m1)"

definition deliver_by_id ::
  "Env \<Rightarrow> string \<Rightarrow> string option \<Rightarrow> AccountManager \<Rightarrow> Selection option \<times> AccountManager" where
  "deliver_by_id env accountId modelId m =
     (case map_of (accounts m) accountId of
        None \<Rightarrow> (None, m)
      | Some account \<Rightarrow>
          if isAccountDisabled env ''antigravity'' accountId then (None, m)
          else if truthy_after (rateLimitedUntil account) (now env) then (None, m)
          else if (case modelId of
                     None \<Rightarrow> False
                   | Some model \<Rightarrow>
                       model \<noteq> [] \<and>
                       (case getAccountModelQuotaPercent env ''antigravity'' accountId model of
                          None \<Rightarrow> False
                        | Some quotaPercent \<Rightarrow> quotaPercent \<le> reservePercent env))
          then (None, m)
          else if near_expiry env account
          then (case refreshAccessToken env (refreshToken account) of
                  None \<Rightarrow>
                    (None, set_account accountId
                             (account\<lparr>rateLimitedUntil := Some (now env + 60000)\<rparr>) m)
                | Some (tok, expiresIn) \<Rightarrow>
                    (let a = refreshed_account env account tok expiresIn
                     in hand_out env accountId a (save (set_account accountId a m))))
          else hand_out env accountId account m)"

definition getAccountById ::
  "Env \<Rightarrow> string \<Rightarrow> string option \<Rightarrow> AccountManager \<Rightarrow> Selection option \<times> AccountManager" where
  "getAccountById env accountId modelId m0 =
     deliver_by_id env accountId modelId (prepare_by_id env accountId m0)"

definition hasAccount :: "Env \<Rightarrow> string \<Rightarrow> AccountManager \<Rightarrow> bool \<times> AccountManager" where
  "hasAccount env accountId m0 =
     (let m = ensureLoaded env m0 in (map_of (accounts m) accountId \<noteq> None, m))"

subsection \<open>The lifecycle of a manager\<close>

text \<open>The calls that change the manager's state, and a run of them from a new manager
  that finds \<open>roster\<close> as its \<open>accounts.json\<close>.\<close>

datatype Operation =
    Load Env
  | AddAccount Credentials
  | RemoveAccount string
  | HasAccount Env string
  | MoveToEndOfQueue string
  | MarkRateLimited rat string rat "string option"
  | MarkRateLimitedFromError Env string int string "string option" "string option" "rat option"
  | MarkSuccess string "string option"
  | ClearAllRateLimits "string option"
  | GetNextAvailableAccount Env bool "string option"
  | GetAccountById Env string "string option"

fun perform :: "Operation \<Rightarrow> AccountManager \<Rightarrow> AccountManager" where
  "perform (Load env) m = load env m"
| "perform (AddAccount account) m = addAccount account m"
| "perform (RemoveAccount accountIdOrEmail) m = snd (removeAccount accountIdOrEmail m)"
| "perform (HasAccount env accountId) m = snd (hasAccount env accountId m)"
| "perform (MoveToEndOfQueue accountId) m = moveToEndOfQueue accountId m"
| "perform (MarkRateLimited nowMs accountId durationMs modelId) m =
     markRateLimited nowMs accountId durationMs modelId m"
| "perform (MarkRateLimitedFromError env accountId statusCode errorText retryAfterHeader
       modelId maxDurationMs) m =
     snd (markRateLimitedFromError env accountId statusCode errorText retryAfterHeader
            modelId maxDurationMs m)"
| "perform (MarkSuccess accountId modelId) m = markSuccess accountId modelId m"
| "perform (ClearAllRateLimits modelId) m = clearAllRateLimits modelId m"
| "perform (GetNextAvailableAccount env forceRotate modelId) m =
     snd (getNextAvailableAccount env forceRotate modelId m)"
| "perform (GetAccountById env accountId modelId) m =
     snd (getAccountById env accountId modelId m)"

definition lifecycle :: "Credentials list option \<Rightarrow> Operation list \<Rightarrow> AccountManager" where
  "lifecycle roster ops = fold perform ops (new_AccountManager\<lparr>dataFile := roster\<rparr>)"

subsection \<open>Predicates on the state\<close>

text \<open>Every account is stored under its own id.\<close>

definition keys_match :: "AccountManager \<Rightarrow> bool" where
  "keys_match m = (\<forall>k a. map_of (accounts m) k = Some a \<longrightarrow> id' a = k)"

definition registry_ok :: "AccountManager \<Rightarrow> bool" where
  "registry_ok m = (distinct (map fst (accounts m)) \<and> keys_match m)"

text \<open>The queue holds no id twice and only registered ids.\<close>

definition queue_ok :: "AccountManager \<Rightarrow> bool" where
  "queue_ok m =
     (distinct (accountQueue m) \<and> set (accountQueue m) \<subseteq> fst ` set (accounts m))"

definition well_formed :: "AccountManager \<Rightarrow> bool" where
  "well_formed m = (registry_ok m \<and> queue_ok m)"

text \<open>Two states with the same registered ids, in the same order, and the same queue.\<close>

definition same_ids :: "AccountManager \<Rightarrow> AccountManager \<Rightarrow> bool" where
  "same_ids m m' =
     (map fst (accounts m') = map fst (accounts m) \<and> accountQueue m' = accountQueue m)"

text \<open>No lockout of either scope and no counted failure.\<close>

definition cleared :: "Account \<Rightarrow> bool" where
  "cleared a =
     (rateLimitedUntil a = None \<and> consecutiveFailures a = 0
      \<and> categoryRateLimits a = (\<lambda>_. None))"

text \<open>Every registered id is queued and every queued id is registered.\<close>

definition queue_complete :: "AccountManager \<Rightarrow> bool" where
  "queue_complete m = (set (accountQueue m) = fst ` set (accounts m))"

text \<open>
  The operation, started in state \<open>m\<close>, registers no account without queueing it: it is
  not \<open>load\<close>, its \<open>ensureLoaded\<close> finds the manager loaded, \<open>getAccountById\<close> is asked
  for a registered id (and so does not hydrate), and \<open>getNextAvailableAccount\<close>, which
  may load and hydrate, then finds the queue empty and fills it.
\<close>

fun queues_what_it_registers :: "Operation \<Rightarrow> AccountManager \<Rightarrow> bool" where
  "queues_what_it_registers (Load env) m = False"
| "queues_what_it_registers (HasAccount env accountId) m = loaded m"
| "queues_what_it_registers (GetAccountById env accountId modelId) m =
     (loaded m \<and> map_of (accounts m) accountId \<noteq> None)"
| "queues_what_it_registers (GetNextAvailableAccount env forceRotate modelId) m =
     (loaded m \<or> accountQueue m = [])"
| "queues_what_it_registers (AddAccount account) m = True"
| "queues_what_it_registers (RemoveAccount accountIdOrEmail) m = True"
| "queues_what_it_registers (MoveToEndOfQueue accountId) m = True"
| "queues_what_it_registers (MarkRateLimited nowMs accountId durationMs modelId) m = True"
| "queues_what_it_registers (MarkRateLimitedFromError env accountId statusCode errorText
       retryAfterHeader modelId maxDurationMs) m = True"
| "queues_what_it_registers (MarkSuccess accountId modelId) m = True"
| "queues_what_it_registers (ClearAllRateLimits modelId) m = True"

fun run_queues_what_it_registers :: "Operation list \<Rightarrow> AccountManager \<Rightarrow> bool" where
  "run_queues_what_it_registers [] m = True"
| "run_queues_what_it_registers (op # ops) m =
     (queues_what_it_registers op m \<and> run_queues_what_it_registers ops (perform op m))"

text \<open>The quota aggregator reports a percentage above the reserve.\<close>

definition quota_ok :: "Env \<Rightarrow> string \<Rightarrow> string \<Rightarrow> bool" where
  "quota_ok env model k =
     (\<exists>q. getAccountModelQuotaPercent env ''antigravity'' k model = Some q
          \<and> q > reservePercent env)"

definition all_cleared :: "AccountManager \<Rightarrow> bool" where
  "all_cleared m = (\<forall>k a. map_of (accounts m) k = Some a \<longrightarrow> cleared a)"

subsection \<open>Sample data\<close>

text \<open>The body of the quota scenario, what \<open>JSON.parse\<close> gives for it, and
  \<open>JSON.parse\<close> cut down to the texts of the examples below: the body parses to that
  object, and the other texts of the examples are not JSON.\<close>

definition resource_exhausted_body :: string where
  \<open>resource_exhausted_body =
     ''{"error":{"status":"RESOURCE_EXHAUSTED","message":"Resource has been exhausted (e.g. check quota)."}}''\<close>

definition resource_exhausted_json :: json where
  "resource_exhausted_json =
     JObject [(''error'', JObject
       [(''status'', JString ''RESOURCE_EXHAUSTED''),
        (''message'', JString ''Resource has been exhausted (e.g. check quota).'')])]"

definition sample_JSON_parse :: "string \<Rightarrow> json option" where
  "sample_JSON_parse text =
     (if text = resource_exhausted_body then Some resource_exhausted_json else None)"

text \<open>Accounts, an environment and managers for the examples. In \<open>sample_env\<close> the
  clock stands at 1000000, no account is disabled or blacklisted, no retry delay is found,
  the quota cache is missing, the quota aggregator has a percentage (80) for account B and
  for no other account, every token refresh throws and no project id resolves.\<close>

definition sample_credentials :: "string \<Rightarrow> Credentials" where
  "sample_credentials k =
     \<lparr>id' = k, email = k @ ''@example.com'', accessToken = ''token-'' @ k,
      refreshToken = ''refresh-'' @ k, expiresAt = 0, projectId = Some ''project-1''\<rparr>"

definition quota_percent_of_B :: "string \<Rightarrow> string \<Rightarrow> string \<Rightarrow> rat option" where
  "quota_percent_of_B provider accountId modelId =
     (if accountId = ''B'' then Some 80 else None)"

definition no_retry_delay :: "string \<Rightarrow> string option \<Rightarrow> rat option" where
  "no_retry_delay errorText retryAfterHeader = None"

definition nothing_for :: "string \<Rightarrow> 'a option" where
  "nothing_for text = None"

definition sample_env :: Env where
  "sample_env =
     \<lparr>now = 1000000, now_later = 1000001, JSON_parse = sample_JSON_parse,
      Date_parse = nothing_for, Math_random = 0, parseRetryDelay = no_retry_delay,
      quotaCache = None, disabledAccounts = Some [], quotaBlacklist = nothing_for,
      getAccountModelQuotaPercent = quota_percent_of_B, quotaReservePercent = Some 0,
      refreshAccessToken = nothing_for, getProjectID = nothing_for,
      generateMockProjectId = ''mock-project'', authStore_listAccounts = [],
      authStore_getAccount = nothing_for\<rparr>"

definition one_account :: AccountManager where
  "one_account = addAccount (sample_credentials ''A'') new_AccountManager"

definition two_accounts :: AccountManager where
  "two_accounts = addAccount (sample_credentials ''B'') one_account"

text \<open>Account A with a global lockout and an image lockout until 61000, one failure
  counted in each scope.\<close>

definition locked_account :: Account where
  "locked_account =
     (fresh_account (sample_credentials ''A''))
       \<lparr>categoryRateLimits := [cat_image \<mapsto> \<lparr>until = 61000, failures = 1\<rparr>],
        rateLimitedUntil := Some 61000, consecutiveFailures := 1\<rparr>"

definition locked_manager :: AccountManager where
  "locked_manager =
     new_AccountManager\<lparr>accounts := [(''A'', locked_account)], loaded := True,
                        accountQueue := [''A'']\<rparr>"

text \<open>Account A with a token that expired at 900000, before the clock of
  \<open>sample_env\<close>, and behind it account B, whose token does not expire.\<close>

definition expiring_manager :: AccountManager where
  "expiring_manager =
     new_AccountManager
       \<lparr>accounts := [(''A'', fresh_account ((sample_credentials ''A'')\<lparr>expiresAt := 900000\<rparr>)),
                     (''B'', fresh_account (sample_credentials ''B''))],
        loaded := True, accountQueue := [''A'', ''B'']\<rparr>"

section \<open>Properties\<close>

subsection \<open>Substrings\<close>

lemma startsWith_iff: "startsWith s p \<longleftrightarrow> (\<exists>b. s = p @ b)"
proof
  assume "startsWith s p"
  then have "s = p @ drop (length p) s"
    unfolding startsWith_def by (metis append_take_drop_id)
  then show "\<exists>b. s = p @ b" by blast
next
  assume "\<exists>b. s = p @ b"
  then show "startsWith s p" unfolding startsWith_def by auto
qed

lemma str_includes_iff: "str_includes s k \<longleftrightarrow> (\<exists>a b. s = a @ k @ b)"
proof (induction s)
  case Nil
  show ?case by auto
next
  case (Cons c cs)
  show ?case
  proof
    assume "str_includes (c # cs) k"
    then consider "startsWith (c # cs) k" | "str_includes cs k" by auto
    then show "\<exists>a b. c # cs = a @ k @ b"
    proof cases
      case 1
      then obtain b where "c # cs = k @ b" using startsWith_iff by blast
      then have "c # cs = [] @ k @ b" by simp
      then show ?thesis by blast
    next
      case 2
      then obtain a b where "cs = a @ k @ b" using Cons.IH by blast
      then have "c # cs = (c # a) @ k @ b" by simp
      then show ?thesis by blast
    qed
  next
    assume "\<exists>a b. c # cs = a @ k @ b"
    then obtain a b where ab: "c # cs = a @ k @ b" by blast
    show "str_includes (c # cs) k"
    proof (cases a)
      case Nil
      with ab have "startsWith (c # cs) k" using startsWith_iff by auto
      then show ?thesis by simp
    next
      case (Cons x a')
      with ab have "cs = a' @ k @ b" by simp
      then have "str_includes cs k" using Cons.IH by blast
      then show ?thesis by simp
    qed
  qed
qed

lemma str_includes_suffix_part: "str_includes s (p @ q) \<Longrightarrow> str_includes s q"
proof -
  assume "str_includes s (p @ q)"
  then obtain a b where "s = a @ (p @ q) @ b" using str_includes_iff by blast
  then have "s = (a @ p) @ q @ b" by simp
  then show ?thesis using str_includes_iff by blast
qed

lemma model_capacity_includes_capacity:
  "str_includes s ''model_capacity'' \<Longrightarrow> str_includes s ''capacity''"
  using str_includes_suffix_part [of s "''model_''" "''capacity''"] by simp

subsection \<open>The classifier\<close>

text \<open>
  C2, as the code has it. A status of 500 or more (never 429) gives \<open>server_error\<close>.
  Any other status except 429 gives \<open>unknown\<close> whatever the body says. For status 429,
  when the structured JSON step yields no verdict, the keyword scan of the lowercased body
  decides: "per minute", "rate limit" or "too many requests" give \<open>rate_limit_exceeded\<close>,
  else "capacity" gives \<open>model_capacity_exhausted\<close>, else "quota" gives
  \<open>quota_exhausted\<close>, else "exhausted" gives \<open>rate_limit_exceeded\<close>, else \<open>unknown\<close>.
\<close>

theorem classifier_keyword_scan_on_429:
  "(statusCode \<ge> 500 \<and> statusCode \<noteq> 429 \<longrightarrow>
      parseRateLimitReason jp statusCode errorText = server_error)
   \<and> (statusCode \<noteq> 429 \<and> statusCode < 500 \<longrightarrow>
      parseRateLimitReason jp statusCode errorText = unknown)
   \<and> (statusCode = 429 \<and> structured_verdict jp errorText = None \<longrightarrow>
      parseRateLimitReason jp statusCode errorText =
        (let lower = toLowerCase errorText
         in if str_includes lower ''per minute'' \<or> str_includes lower ''rate limit''
               \<or> str_includes lower ''too many requests''
            then rate_limit_exceeded
            else if str_includes lower ''capacity'' then model_capacity_exhausted
            else if str_includes lower ''quota'' then quota_exhausted
            else if str_includes lower ''exhausted'' then rate_limit_exceeded
            else unknown))"
  using model_capacity_includes_capacity [of "toLowerCase errorText"]
  by (auto simp: parseRateLimitReason_def keyword_scan_def Let_def)

theorem classifier_keyword_scan_on_429_witness:
  "parseRateLimitReason sample_JSON_parse 503 ''Quota exceeded'' = server_error
   \<and> parseRateLimitReason sample_JSON_parse 403 ''Quota exceeded'' = unknown
   \<and> structured_verdict sample_JSON_parse ''Quota exceeded'' = None
   \<and> parseRateLimitReason sample_JSON_parse 429 ''Quota exceeded'' = quota_exhausted"
proof -
  have v: "structured_verdict sample_JSON_parse ''Quota exceeded'' = None"
    by code_simp
  have k: "\<not> str_includes (toLowerCase ''Quota exceeded'') ''per minute''"
    "\<not> str_includes (toLowerCase ''Quota exceeded'') ''rate limit''"
    "\<not> str_includes (toLowerCase ''Quota exceeded'') ''too many requests''"
    "\<not> str_includes (toLowerCase ''Quota exceeded'') ''capacity''"
    "str_includes (toLowerCase ''Quota exceeded'') ''quota''"
    by code_simp+
  show ?thesis
    using classifier_keyword_scan_on_429 [of 503 sample_JSON_parse "''Quota exceeded''"]
      classifier_keyword_scan_on_429 [of 403 sample_JSON_parse "''Quota exceeded''"]
      classifier_keyword_scan_on_429 [of 429 sample_JSON_parse "''Quota exceeded''"]
      v k
    by (simp add: Let_def)
qed

text \<open>
  C2 as the specification words it lets the keyword scan decide for every input that is
  not a 5xx status and has no structured verdict. At status 403 with the body
  "Quota exceeded" there is no structured verdict and the lowercased body contains
  "quota" and none of the earlier keywords, yet the classifier answers \<open>unknown\<close>.
\<close>

theorem classifier_keyword_scan_counterexample:
  "\<not> (403 :: int) \<ge> 500
   \<and> structured_verdict sample_JSON_parse ''Quota exceeded'' = None
   \<and> \<not> rate_limit_keywords (toLowerCase ''Quota exceeded'')
   \<and> \<not> str_includes (toLowerCase ''Quota exceeded'') ''capacity''
   \<and> str_includes (toLowerCase ''Quota exceeded'') ''quota''
   \<and> parseRateLimitReason sample_JSON_parse 403 ''Quota exceeded'' \<noteq> quota_exhausted"
  by code_simp

subsection \<open>The cool-down policy\<close>

text \<open>
  C6. For every reason and all failure counts \<open>n \<le> m\<close> the duration at \<open>n\<close> is at most
  the duration at \<open>m\<close>; the quota schedule never exceeds two hours and is two hours from
  the fourth consecutive failure on.
\<close>

theorem cooldown_monotone_and_capped:
  "(n \<le> m \<longrightarrow> defaultRateLimitMs reason n \<le> defaultRateLimitMs reason m)
   \<and> defaultRateLimitMs quota_exhausted n \<le> 2 * 60 * 60000
   \<and> (4 \<le> n \<longrightarrow> defaultRateLimitMs quota_exhausted n = 2 * 60 * 60000)"
  by (cases reason) (auto simp: defaultRateLimitMs_def)

theorem cooldown_monotone_and_capped_witness:
  "(3 :: int) \<le> 4
   \<and> defaultRateLimitMs quota_exhausted 3 \<le> defaultRateLimitMs quota_exhausted 4
   \<and> defaultRateLimitMs quota_exhausted 4 \<le> 2 * 60 * 60000
   \<and> defaultRateLimitMs quota_exhausted 4 = 2 * 60 * 60000"
  using cooldown_monotone_and_capped [of 3 4 quota_exhausted]
    cooldown_monotone_and_capped [of 4 4 quota_exhausted]
  by simp

subsection \<open>Accounts in the registry\<close>

lemma save_fields [simp]:
  "accounts (save m) = accounts m"
  "accountQueue (save m) = accountQueue m"
  "inFlightAccounts (save m) = inFlightAccounts m"
  "loaded (save m) = loaded m"
  by (simp_all add: save_def)

lemma set_account_fields [simp]:
  "accountQueue (set_account k acc m) = accountQueue m"
  "inFlightAccounts (set_account k acc m) = inFlightAccounts m"
  "loaded (set_account k acc m) = loaded m"
  "dataFile (set_account k acc m) = dataFile m"
  by (simp_all add: set_account_def)

lemma map_of_set_account [simp]:
  "map_of (accounts (set_account k acc m)) k' =
     (if k' = k then Some acc else map_of (accounts m) k')"
  by (simp add: set_account_def update_conv')

lemma image_model_category: "getModelCategory (Some ''gemini-3-pro-image'') = cat_image"
  by code_simp

lemma llm_model_category: "getModelCategory (Some ''claude-sonnet-4-5'') = cat_llm"
  by code_simp

lemma locked_manager_A: "map_of (accounts locked_manager) ''A'' = Some locked_account"
  by (simp add: locked_manager_def)

lemma one_account_A:
  "map_of (accounts one_account) ''A'' = Some (fresh_account (sample_credentials ''A''))"
  by (simp add: one_account_def addAccount_def sample_credentials_def new_AccountManager_def)

lemma category_known_given: "getModelCategory modelId \<noteq> cat_unknown \<Longrightarrow> given modelId"
  by (auto simp: getModelCategory_def given_def split: option.splits if_splits)

text \<open>
  C8. After \<open>markSuccess\<close> for a registered account with a model of a known category,
  that category's entry is gone (its \<open>until\<close> and its failure counter with it), while the
  global lockout, the global failure counter and the entries of the other categories are
  as before. After \<open>markSuccess\<close> without a category (no model, or a model of unknown
  category) the global scope is clear (\<open>rateLimitedUntil\<close> null, \<open>consecutiveFailures\<close>
  0) and the category entries are as before.
\<close>

theorem success_clears_exact_scope:
  assumes "map_of (accounts m) accountId = Some account"
  shows "\<exists>account'. map_of (accounts (markSuccess accountId modelId m)) accountId = Some account'
    \<and> (getModelCategory modelId \<noteq> cat_unknown \<longrightarrow>
          categoryRateLimits account' (getModelCategory modelId) = None
        \<and> rateLimitedUntil account' = rateLimitedUntil account
        \<and> consecutiveFailures account' = consecutiveFailures account
        \<and> (\<forall>c. c \<noteq> getModelCategory modelId \<longrightarrow>
              categoryRateLimits account' c = categoryRateLimits account c))
    \<and> (getModelCategory modelId = cat_unknown \<longrightarrow>
          rateLimitedUntil account' = None
        \<and> consecutiveFailures account' = 0
        \<and> categoryRateLimits account' = categoryRateLimits account)"
  using assms category_known_given [of modelId]
  by (auto simp: markSuccess_def)

theorem success_clears_exact_scope_witness:
  "map_of (accounts locked_manager) ''A'' = Some locked_account
   \<and> (\<exists>account'.
        map_of (accounts (markSuccess ''A'' (Some ''gemini-3-pro-image'') locked_manager)) ''A''
          = Some account'
        \<and> categoryRateLimits account' cat_image = None
        \<and> rateLimitedUntil account' = Some 61000
        \<and> consecutiveFailures account' = 1)
   \<and> (\<exists>account'.
        map_of (accounts (markSuccess ''A'' None locked_manager)) ''A'' = Some account'
        \<and> rateLimitedUntil account' = None
        \<and> consecutiveFailures account' = 0
        \<and> categoryRateLimits account' cat_image = Some \<lparr>until = 61000, failures = 1\<rparr>)"
proof -
  have u: "getModelCategory None = cat_unknown" by (simp add: getModelCategory_def)
  have l: "rateLimitedUntil locked_account = Some 61000"
    "consecutiveFailures locked_account = 1"
    "categoryRateLimits locked_account cat_image = Some \<lparr>until = 61000, failures = 1\<rparr>"
    by (simp_all add: locked_account_def)
  show ?thesis
    using success_clears_exact_scope [OF locked_manager_A, of "Some ''gemini-3-pro-image''"]
      success_clears_exact_scope [OF locked_manager_A, of None]
      image_model_category u l locked_manager_A
    by auto
qed

lemma not_limited_iff:
  assumes "map_of (accounts m) accountId = Some account"
    and "getModelCategory modelId \<noteq> cat_unknown"
  shows "(\<not> isAccountRateLimited T accountId modelId m) \<longleftrightarrow>
     ((case rateLimitedUntil account of None \<Rightarrow> True | Some u \<Rightarrow> u \<le> T)
      \<and> (case categoryRateLimits account (getModelCategory modelId) of
            None \<Rightarrow> True | Some l \<Rightarrow> until l \<le> T))"
  using assms category_known_given [of modelId]
  by (auto simp: isAccountRateLimited_def split: option.splits)

lemma limited_record_other_category:
  assumes "getModelCategory p \<noteq> cat_unknown"
    and "getModelCategory p \<noteq> getModelCategory q"
    and "map_of (accounts m) b = Some account"
  shows "isAccountRateLimited T a q
           (set_account b (record_lockout (getModelCategory p) p u account) m)
         = isAccountRateLimited T a q m"
  using assms category_known_given [of p]
  by (auto simp: isAccountRateLimited_def record_lockout_def Let_def split: option.splits)

text \<open>
  C7. A lockout recorded for a model of category image, by \<open>markRateLimited\<close> or by
  \<open>markRateLimitedFromError\<close>, on any account and at any time, leaves
  \<open>isAccountRateLimited\<close> for a model of category llm as it was, for every account and
  every time \<open>T\<close>, and the same with the two categories exchanged. For a registered
  account and a model of a known category, the account is not rate-limited at \<open>T\<close> iff
  the global lockout is absent or at most \<open>T\<close> and the category's lockout is absent or
  at most \<open>T\<close>.
\<close>

theorem category_lockouts_independent:
  assumes "getModelCategory imageModel = cat_image"
    and "getModelCategory llmModel = cat_llm"
  shows "isAccountRateLimited T a llmModel (markRateLimited t b d imageModel m)
           = isAccountRateLimited T a llmModel m
       \<and> isAccountRateLimited T a imageModel (markRateLimited t b d llmModel m)
           = isAccountRateLimited T a imageModel m
       \<and> isAccountRateLimited T a llmModel
             (snd (markRateLimitedFromError env b status body hdr imageModel cap m))
           = isAccountRateLimited T a llmModel m
       \<and> isAccountRateLimited T a imageModel
             (snd (markRateLimitedFromError env b status body hdr llmModel cap m))
           = isAccountRateLimited T a imageModel m
       \<and> (\<forall>account modelId.
             map_of (accounts m) a = Some account \<and> getModelCategory modelId \<noteq> cat_unknown
             \<longrightarrow> (\<not> isAccountRateLimited T a modelId m) =
                 ((case rateLimitedUntil account of None \<Rightarrow> True | Some u \<Rightarrow> u \<le> T)
                  \<and> (case categoryRateLimits account (getModelCategory modelId) of
                        None \<Rightarrow> True
                      | Some l \<Rightarrow> until l \<le> T)))"
proof -
  have i: "getModelCategory imageModel \<noteq> cat_unknown"
    "getModelCategory imageModel \<noteq> getModelCategory llmModel"
    and l: "getModelCategory llmModel \<noteq> cat_unknown"
    "getModelCategory llmModel \<noteq> getModelCategory imageModel"
    using assms by simp_all
  have 1: "isAccountRateLimited T a llmModel (markRateLimited t b d imageModel m)
           = isAccountRateLimited T a llmModel m"
    using limited_record_other_category [OF i]
    by (simp add: markRateLimited_def split: option.splits)
  have 2: "isAccountRateLimited T a imageModel (markRateLimited t b d llmModel m)
           = isAccountRateLimited T a imageModel m"
    using limited_record_other_category [OF l]
    by (simp add: markRateLimited_def split: option.splits)
  have 3: "isAccountRateLimited T a llmModel
             (snd (markRateLimitedFromError env b status body hdr imageModel cap m))
           = isAccountRateLimited T a llmModel m"
    using limited_record_other_category [OF i]
    by (simp add: markRateLimitedFromError_def split: option.splits prod.splits)
  have 4: "isAccountRateLimited T a imageModel
             (snd (markRateLimitedFromError env b status body hdr llmModel cap m))
           = isAccountRateLimited T a imageModel m"
    using limited_record_other_category [OF l]
    by (simp add: markRateLimitedFromError_def split: option.splits prod.splits)
  show ?thesis using 1 2 3 4 not_limited_iff by blast
qed

theorem category_lockouts_independent_witness:
  "getModelCategory (Some ''gemini-3-pro-image'') = cat_image
   \<and> getModelCategory (Some ''claude-sonnet-4-5'') = cat_llm
   \<and> map_of (accounts one_account) ''A'' = Some (fresh_account (sample_credentials ''A''))
   \<and> \<not> isAccountRateLimited 5000 ''A'' (Some ''claude-sonnet-4-5'') one_account
   \<and> isAccountRateLimited 5000 ''A'' (Some ''gemini-3-pro-image'')
        (markRateLimited 1000 ''A'' 60000 (Some ''gemini-3-pro-image'') one_account)
   \<and> \<not> isAccountRateLimited 5000 ''A'' (Some ''claude-sonnet-4-5'')
        (markRateLimited 1000 ''A'' 60000 (Some ''gemini-3-pro-image'') one_account)"
proof -
  have c: "getModelCategory (Some ''claude-sonnet-4-5'') \<noteq> cat_unknown"
    using llm_model_category by simp
  have g: "given (Some ''gemini-3-pro-image'')" by (simp add: given_def)
  have i: "isAccountRateLimited 5000 ''A'' (Some ''gemini-3-pro-image'')
        (markRateLimited 1000 ''A'' 60000 (Some ''gemini-3-pro-image'') one_account)"
    using one_account_A image_model_category g
    by (simp add: isAccountRateLimited_def markRateLimited_def record_lockout_def
        fresh_account_def)
  show ?thesis
    using category_lockouts_independent [OF image_model_category llm_model_category,
        of 5000 "''A''" 1000 "''A''" 60000 one_account]
      image_model_category llm_model_category one_account_A c i
    by (auto simp: fresh_account_def)
qed

subsection \<open>Well-formed states\<close>

lemma keys_set_account:
  "map_of (accounts m) k = Some old \<Longrightarrow>
     map fst (accounts (set_account k acc m)) = map fst (accounts m)"
  by (auto simp: set_account_def update_keys dest: map_of_SomeD intro: rev_image_eqI)

lemma same_ids_refl [simp]: "same_ids m m"
  by (simp add: same_ids_def)

lemma same_ids_trans: "same_ids m m' \<Longrightarrow> same_ids m' m'' \<Longrightarrow> same_ids m m''"
  by (simp add: same_ids_def)

lemma same_ids_set_account:
  "map_of (accounts m) k = Some old \<Longrightarrow> same_ids m (set_account k acc m)"
  by (simp add: same_ids_def keys_set_account)

lemma keys_match_set_account:
  "keys_match m \<Longrightarrow> id' acc = k \<Longrightarrow> keys_match (set_account k acc m)"
  by (simp add: keys_match_def)

lemma same_ids_save [simp]: "same_ids m (save m')  = same_ids m m'"
  by (simp add: same_ids_def)

lemma keys_match_save [simp]: "keys_match (save m) = keys_match m"
  by (simp add: keys_match_def)

lemma keys_match_lastUsed [simp]: "keys_match (m\<lparr>lastUsedAccount := x\<rparr>) = keys_match m"
  by (simp add: keys_match_def)

lemma same_ids_lastUsed [simp]: "same_ids m (m'\<lparr>lastUsedAccount := x\<rparr>) = same_ids m m'"
  by (simp add: same_ids_def)

lemma same_ids_lastUsed2 [simp]: "same_ids (m\<lparr>lastUsedAccount := x\<rparr>) m' = same_ids m m'"
  by (simp add: same_ids_def)

lemma map_of_lastUsed [simp]: "map_of (accounts (m\<lparr>lastUsedAccount := x\<rparr>)) = map_of (accounts m)"
  by simp

lemma resolve_project_inv:
  assumes "map_of (accounts m) k = Some old" "id' account = k" "keys_match m"
  shows "same_ids m (snd (resolve_project env k account m))
       \<and> keys_match (snd (resolve_project env k account m))"
  using assms
  by (simp add: resolve_project_def Let_def same_ids_set_account keys_match_set_account)

lemma ensureProjectId_inv:
  assumes "map_of (accounts m) k = Some old" "id' account = k" "keys_match m"
  shows "same_ids m (snd (ensureProjectId env k account m))
       \<and> keys_match (snd (ensureProjectId env k account m))"
  using resolve_project_inv [OF assms] assms(3)
  by (simp add: ensureProjectId_def split: option.splits)

lemma hand_out_inv:
  assumes "map_of (accounts m) k = Some old" "id' account = k" "keys_match m"
  shows "same_ids m (snd (hand_out env k account m))
       \<and> keys_match (snd (hand_out env k account m))"
  using ensureProjectId_inv [OF assms, of env]
  by (cases "ensureProjectId env k account m") (simp add: hand_out_def)

lemma id_refreshed_account [simp]: "id' (refreshed_account env account tok e) = id' account"
  by (simp add: refreshed_account_def Let_def)

lemma scan_queue_inv:
  "keys_match m \<Longrightarrow>
     same_ids m (snd (scan_queue env h modelId q m))
     \<and> keys_match (snd (scan_queue env h modelId q m))"
proof (induction q arbitrary: m h)
  case Nil
  then show ?case by simp
next
  case (Cons k q)
  show ?case
  proof (cases "map_of (accounts m) k")
    case None
    then show ?thesis using Cons by simp
  next
    case (Some account)
    then have idk: "id' account = k" using Cons.prems by (simp add: keys_match_def)
    let ?locked = "set_account k (account\<lparr>rateLimitedUntil := Some (now env + 60000)\<rparr>) m"
    have l1: "same_ids m ?locked" using Some by (rule same_ids_set_account)
    have l2: "keys_match ?locked" using Cons.prems idk by (simp add: keys_match_set_account)
    have locked: "same_ids m (snd (scan_queue env h' modelId q ?locked))
       \<and> keys_match (snd (scan_queue env h' modelId q ?locked))" for h'
      using Cons.IH [OF l2] l1 same_ids_trans by blast
    have plain: "same_ids m (snd (hand_out env k account
                    (m\<lparr>lastUsedAccount := Some (id' account, now_later env)\<rparr>)))
       \<and> keys_match (snd (hand_out env k account
                    (m\<lparr>lastUsedAccount := Some (id' account, now_later env)\<rparr>)))"
      using hand_out_inv [of "m\<lparr>lastUsedAccount := Some (id' account, now_later env)\<rparr>" k account account env]
        Some idk Cons.prems by simp
    have refreshed: "same_ids m (snd (hand_out env k (refreshed_account env account tok e)
                    ((save (set_account k (refreshed_account env account tok e) m))
                       \<lparr>lastUsedAccount := Some (x, now_later env)\<rparr>)))
       \<and> keys_match (snd (hand_out env k (refreshed_account env account tok e)
                    ((save (set_account k (refreshed_account env account tok e) m))
                       \<lparr>lastUsedAccount := Some (x, now_later env)\<rparr>)))" for tok e x
    proof -
      let ?a = "refreshed_account env account tok e"
      let ?m = "(save (set_account k ?a m))\<lparr>lastUsedAccount := Some (x, now_later env)\<rparr>"
      have a: "map_of (accounts ?m) k = Some ?a" by simp
      have b: "keys_match ?m" using Cons.prems idk by (simp add: keys_match_set_account)
      have c: "same_ids m ?m" using Some by (simp add: same_ids_set_account)
      have "same_ids ?m (snd (hand_out env k ?a ?m)) \<and> keys_match (snd (hand_out env k ?a ?m))"
        by (rule hand_out_inv [OF a _ b]) (simp add: idk)
      with c show ?thesis using same_ids_trans by blast
    qed
    show ?thesis
      using Some Cons.IH [OF Cons.prems] locked plain refreshed
      by (simp add: Let_def split: option.splits prod.splits)
  qed
qed

lemma wf_same_ids: "well_formed m \<Longrightarrow> same_ids m m' \<Longrightarrow> keys_match m' \<Longrightarrow> well_formed m'"
  unfolding well_formed_def registry_ok_def queue_ok_def same_ids_def
  by (metis set_map)

lemma wf_new: "well_formed new_AccountManager"
  by (simp add: well_formed_def registry_ok_def queue_ok_def keys_match_def new_AccountManager_def)

lemma wf_add_key:
  assumes "well_formed m" "id' acc = k"
  shows "well_formed (m\<lparr>accounts := AList.update k acc (accounts m)\<rparr>)"
  using assms
  by (auto simp: well_formed_def registry_ok_def queue_ok_def keys_match_def distinct_update
      update_conv' dom_update)

lemma id_fresh_account [simp]: "id' (fresh_account c) = id' c"
  by (simp add: fresh_account_def)

lemma id_stored_account [simp]: "id' (stored_account st) = st_id st"
  by (simp add: stored_account_def)

lemma wf_load_one: "well_formed m \<Longrightarrow> well_formed (load_one c m)"
  by (simp add: load_one_def wf_add_key)

lemma wf_hydrate_one: "well_formed m \<Longrightarrow> well_formed (hydrate_one st m)"
  by (simp add: hydrate_one_def wf_add_key)

lemma wf_fold_load_one: "well_formed m \<Longrightarrow> well_formed (fold load_one cs m)"
  by (induction cs arbitrary: m) (simp_all add: wf_load_one)

lemma wf_fold_hydrate_one: "well_formed m \<Longrightarrow> well_formed (fold hydrate_one sts m)"
  by (induction sts arbitrary: m) (simp_all add: wf_hydrate_one)

lemma wf_hydrate: "well_formed m \<Longrightarrow> well_formed (hydrateFromAuthStore env a m)"
  by (simp add: hydrateFromAuthStore_def Let_def wf_fold_hydrate_one split: option.splits)

lemma wf_irrelevant [simp]:
  "well_formed (m\<lparr>lastUsedAccount := x\<rparr>) = well_formed m"
  "well_formed (m\<lparr>loaded := y\<rparr>) = well_formed m"
  "well_formed (m\<lparr>dataFile := z\<rparr>) = well_formed m"
  "well_formed (m\<lparr>inFlightAccounts := u\<rparr>) = well_formed m"
  "well_formed (m\<lparr>accountLocks := v\<rparr>) = well_formed m"
  "well_formed (m\<lparr>lastCallByAccount := w\<rparr>) = well_formed m"
  by (simp_all add: well_formed_def registry_ok_def queue_ok_def keys_match_def)

lemma wf_save [simp]: "well_formed (save m) = well_formed m"
  by (simp add: save_def)

lemma wf_load: "well_formed m \<Longrightarrow> well_formed (load env m)"
  by (simp add: load_def Let_def wf_fold_load_one wf_hydrate split: option.splits)

lemma wf_ensureLoaded: "well_formed m \<Longrightarrow> well_formed (ensureLoaded env m)"
  by (simp add: ensureLoaded_def wf_load)

lemma wf_ensureQueueInitialized: "well_formed m \<Longrightarrow> well_formed (ensureQueueInitialized m)"
  by (auto simp: ensureQueueInitialized_def well_formed_def registry_ok_def queue_ok_def keys_match_def)

lemma wf_addAccount: "well_formed m \<Longrightarrow> well_formed (addAccount c m)"
  by (auto simp: addAccount_def well_formed_def registry_ok_def queue_ok_def keys_match_def
      distinct_update update_conv' dom_update)

lemma keys_delete: "fst ` set (AList.delete k al) = fst ` set al - {k}"
proof -
  have "fst ` set (AList.delete k al) = set (map fst (AList.delete k al))" by simp
  also have "\<dots> = set (removeAll k (map fst al))" by (simp only: delete_keys)
  finally show ?thesis by simp
qed

lemma wf_remove_by_id:
  assumes "well_formed m"
  shows "well_formed (remove_by_id k m)"
proof -
  have d: "distinct (map fst (AList.delete k (accounts m)))"
    using assms by (simp add: well_formed_def registry_ok_def distinct_delete)
  have km: "\<forall>k' a. map_of (AList.delete k (accounts m)) k' = Some a \<longrightarrow> id' a = k'"
    using assms by (simp add: well_formed_def registry_ok_def keys_match_def delete_conv')
  have q: "distinct (remove1 k (accountQueue m))"
    using assms by (simp add: well_formed_def queue_ok_def)
  have s: "set (remove1 k (accountQueue m)) \<subseteq> fst ` set (AList.delete k (accounts m))"
    using assms by (auto simp: well_formed_def queue_ok_def keys_delete)
  show ?thesis
    using d km q s
    by (simp add: remove_by_id_def well_formed_def registry_ok_def queue_ok_def keys_match_def)
qed

lemma wf_removeAccount: "well_formed m \<Longrightarrow> well_formed (snd (removeAccount x m))"
  by (simp add: removeAccount_def wf_remove_by_id split: option.splits prod.splits)

lemma wf_moveToEndOfQueue: "well_formed m \<Longrightarrow> well_formed (moveToEndOfQueue k m)"
  by (auto simp: moveToEndOfQueue_def well_formed_def registry_ok_def queue_ok_def keys_match_def
      dest: notin_set_remove1)

lemma wf_set_account:
  "well_formed m \<Longrightarrow> map_of (accounts m) k = Some old \<Longrightarrow> id' acc = k \<Longrightarrow> well_formed (set_account k acc m)"
  by (meson wf_same_ids same_ids_set_account keys_match_set_account well_formed_def registry_ok_def)

lemma wf_prepare: "well_formed m \<Longrightarrow> well_formed (prepare env m)"
  by (simp add: prepare_def Let_def wf_ensureLoaded wf_hydrate wf_ensureQueueInitialized)

lemma wf_keys_match: "well_formed m \<Longrightarrow> keys_match m"
  by (simp add: well_formed_def registry_ok_def)

lemma sticky_head_inv:
  assumes "keys_match m" "sticky_head env h modelId m = Some r"
  shows "same_ids m (snd r) \<and> keys_match (snd r)"
proof -
  from assms(2) obtain k rest account where
    q: "accountQueue m = k # rest" and a: "map_of (accounts m) k = Some account"
    by (auto simp: sticky_head_def split: list.splits option.splits)
  have idk: "id' account = k" using a assms(1) by (simp add: keys_match_def)
  have plain: "same_ids m (snd (hand_out env k account (m\<lparr>lastUsedAccount := x\<rparr>)))
       \<and> keys_match (snd (hand_out env k account (m\<lparr>lastUsedAccount := x\<rparr>)))" for x
    using hand_out_inv [of "m\<lparr>lastUsedAccount := x\<rparr>" k account account env]
      a idk assms(1) by simp
  have refreshed: "same_ids m (snd (hand_out env k acc'
                    ((save (set_account k acc' m))\<lparr>lastUsedAccount := x\<rparr>)))
       \<and> keys_match (snd (hand_out env k acc'
                    ((save (set_account k acc' m))\<lparr>lastUsedAccount := x\<rparr>)))"
    if "id' acc' = k" for acc' x
  proof -
    let ?m = "(save (set_account k acc' m))\<lparr>lastUsedAccount := x\<rparr>"
    have a': "map_of (accounts ?m) k = Some acc'" by simp
    have b: "keys_match ?m" using assms(1) that by (simp add: keys_match_set_account)
    have c: "same_ids m ?m" using a by (simp add: same_ids_set_account)
    have "same_ids ?m (snd (hand_out env k acc' ?m)) \<and> keys_match (snd (hand_out env k acc' ?m))"
      by (rule hand_out_inv [OF a' that b])
    with c show ?thesis using same_ids_trans by blast
  qed
  show ?thesis
    using assms(2) q a plain refreshed idk
    by (auto simp: sticky_head_def Let_def split: if_splits option.splits prod.splits)
qed

lemma wf_choose_account:
  assumes "well_formed m"
  shows "well_formed (snd (choose_account env forceRotate modelId m))"
proof -
  have km: "keys_match m" using assms by (rule wf_keys_match)
  have scan: "well_formed (snd (scan_queue env h modelId q m))" for h q
    using scan_queue_inv [OF km] assms wf_same_ids by blast
  have sticky: "well_formed (snd r)" if "sticky_head env h modelId m = Some r" for h r
    using sticky_head_inv [OF km that] assms wf_same_ids by blast
  show ?thesis
    using assms scan sticky
    by (auto simp: choose_account_def Let_def split: option.splits)
qed

lemma wf_getNextAvailableAccount:
  "well_formed m \<Longrightarrow> well_formed (snd (getNextAvailableAccount env forceRotate modelId m))"
  by (simp add: getNextAvailableAccount_def wf_choose_account wf_prepare)

lemma wf_prepare_by_id: "well_formed m \<Longrightarrow> well_formed (prepare_by_id env accountId m)"
  by (simp add: prepare_by_id_def Let_def wf_ensureLoaded wf_hydrate)

lemma wf_deliver_by_id:
  assumes i: "well_formed m"
  shows "well_formed (snd (deliver_by_id env accountId modelId m))"
proof (cases "map_of (accounts m) accountId")
  case None
  then show ?thesis using i by (simp add: deliver_by_id_def)
next
  case (Some account)
  have km: "keys_match m" using i by (rule wf_keys_match)
  have ida: "id' account = accountId" using Some km by (simp add: keys_match_def)
  have locked: "well_formed (set_account accountId (account\<lparr>rateLimitedUntil := x\<rparr>) m)" for x
    using wf_set_account [OF i Some] ida by simp
  have plain: "well_formed (snd (hand_out env accountId account m))"
    using hand_out_inv [OF Some ida km] i wf_same_ids by blast
  have refreshed: "well_formed (snd (hand_out env accountId (refreshed_account env account tok e)
                  (save (set_account accountId (refreshed_account env account tok e) m))))"
    for tok e
  proof -
    let ?a = "refreshed_account env account tok e"
    let ?s = "save (set_account accountId ?a m)"
    have ida': "id' ?a = accountId" using ida by simp
    have wf_s: "well_formed ?s" using wf_set_account [OF i Some ida'] by simp
    have a': "map_of (accounts ?s) accountId = Some ?a" by simp
    from hand_out_inv [OF a' ida' wf_keys_match [OF wf_s]] wf_s show ?thesis
      using wf_same_ids by blast
  qed
  show ?thesis
    using Some i locked plain refreshed
    by (simp add: deliver_by_id_def Let_def split: option.splits prod.splits)
qed

lemma wf_getAccountById:
  "well_formed m \<Longrightarrow> well_formed (snd (getAccountById env accountId modelId m))"
  by (simp add: getAccountById_def wf_deliver_by_id wf_prepare_by_id)

lemma wf_hasAccount: "well_formed m \<Longrightarrow> well_formed (snd (hasAccount env accountId m))"
  by (simp add: hasAccount_def Let_def wf_ensureLoaded)

lemma wf_modify:
  assumes "well_formed m" "map_of (accounts m) k = Some old" "id' acc = id' old"
  shows "well_formed (set_account k acc m)"
proof -
  have "id' old = k" using assms(1,2) wf_keys_match keys_match_def by blast
  then show ?thesis using wf_set_account [OF assms(1,2)] assms(3) by simp
qed

lemma id_record_lockout [simp]: "id' (record_lockout c modelId u a) = id' a"
  by (simp add: record_lockout_def Let_def)

lemma wf_markRateLimited: "well_formed m \<Longrightarrow> well_formed (markRateLimited t k d modelId m)"
  by (auto simp: markRateLimited_def intro: wf_modify split: option.splits)

lemma wf_markRateLimitedFromError:
  "well_formed m \<Longrightarrow> well_formed (snd (markRateLimitedFromError env k st body hdr modelId cap m))"
  by (auto simp: markRateLimitedFromError_def intro: wf_modify split: option.splits prod.splits)

lemma wf_markSuccess: "well_formed m \<Longrightarrow> well_formed (markSuccess k modelId m)"
  by (auto simp: markSuccess_def intro: wf_modify split: option.splits)

lemma id_clear_account [simp]: "id' (clear_account modelId a) = id' a"
  by (simp add: clear_account_def)

lemma wf_clearAllRateLimits: 
  assumes "well_formed m"
  shows "well_formed (clearAllRateLimits modelId m)"
proof -
  define al where "al = map (\<lambda>(k, acc). (k, clear_account modelId acc)) (accounts m)"
  have k: "map fst al = map fst (accounts m)"
    unfolding al_def by (induction "accounts m") (auto simp: case_prod_beta)
  have mo: "map_of (map (\<lambda>(k, acc). (k, clear_account modelId acc)) xs) k
            = map_option (clear_account modelId) (map_of xs k)" for xs :: "(string \<times> Account) list" and k
    by (induction xs) auto
  have d: "distinct (map fst al)"
    using assms k by (simp add: well_formed_def registry_ok_def)
  have km: "\<forall>k a. map_of al k = Some a \<longrightarrow> id' a = k"
    using assms mo unfolding al_def by (auto simp: well_formed_def registry_ok_def keys_match_def)
  have "fst ` set al = set (map fst al)" by simp
  then have s: "set (accountQueue m) \<subseteq> fst ` set al"
    using assms k by (simp add: well_formed_def queue_ok_def)
  have q: "distinct (accountQueue m)" using assms by (simp add: well_formed_def queue_ok_def)
  have "clearAllRateLimits modelId m = m\<lparr>accounts := al\<rparr>"
    by (simp add: clearAllRateLimits_def al_def)
  then show ?thesis
    using d km s q by (simp add: well_formed_def registry_ok_def queue_ok_def keys_match_def)
qed


lemma wf_perform: "well_formed m \<Longrightarrow> well_formed (perform op m)"
  by (cases op)
    (simp_all add: wf_load wf_addAccount wf_removeAccount wf_hasAccount wf_moveToEndOfQueue
      wf_markRateLimited wf_markRateLimitedFromError wf_markSuccess wf_clearAllRateLimits
      wf_getNextAvailableAccount wf_getAccountById)

lemma wf_fold_perform: "well_formed m \<Longrightarrow> well_formed (fold perform ops m)"
  by (induction ops arbitrary: m) (simp_all add: wf_perform)

lemma wf_lifecycle: "well_formed (lifecycle roster ops)"
  by (simp add: lifecycle_def wf_fold_perform wf_new)

subsection \<open>Persistence\<close>

lemma cleared_fresh [simp]: "cleared (fresh_account c)"
  by (simp add: cleared_def fresh_account_def)

lemma cleared_stored [simp]: "cleared (stored_account st)"
  by (simp add: cleared_def stored_account_def)

lemma map_of_load_one:
  "map_of (accounts (load_one c m)) k =
     (if k = id' c then Some (fresh_account c) else map_of (accounts m) k)"
  by (simp add: load_one_def update_conv')

lemma fold_load_one_other:
  "k \<notin> id' ` set cs \<Longrightarrow> map_of (accounts (fold load_one cs m)) k = map_of (accounts m) k"
  by (induction cs arbitrary: m) (simp_all add: map_of_load_one)

lemma fold_load_one_keeps_cleared:
  "\<exists>a. map_of (accounts m) k = Some a \<and> cleared a \<Longrightarrow>
     \<exists>a. map_of (accounts (fold load_one cs m)) k = Some a \<and> cleared a"
  by (induction cs arbitrary: m) (simp_all add: map_of_load_one)

lemma fold_load_one_cleared:
  "c \<in> set cs \<Longrightarrow> \<exists>a. map_of (accounts (fold load_one cs m)) (id' c) = Some a \<and> cleared a"
proof (induction cs arbitrary: m)
  case Nil
  then show ?case by simp
next
  case (Cons x cs)
  show ?case
  proof (cases "c \<in> set cs")
    case True
    then show ?thesis using Cons.IH by simp
  next
    case False
    then have "c = x" using Cons.prems by simp
    then have "\<exists>a. map_of (accounts (load_one x m)) (id' c) = Some a \<and> cleared a"
      by (simp add: map_of_load_one)
    then show ?thesis using fold_load_one_keeps_cleared by simp
  qed
qed

lemma map_of_hydrate_one:
  "map_of (accounts (hydrate_one st m)) k =
     (if k = st_id st \<and> map_of (accounts m) k = None then Some (stored_account st)
      else map_of (accounts m) k)"
  by (auto simp: hydrate_one_def update_conv')

lemma fold_hydrate_one_keeps:
  "map_of (accounts m) k = Some a \<Longrightarrow> map_of (accounts (fold hydrate_one sts m)) k = Some a"
  by (induction sts arbitrary: m) (simp_all add: map_of_hydrate_one)

lemma fold_hydrate_one_all_cleared:
  "all_cleared m \<Longrightarrow> all_cleared (fold hydrate_one sts m)"
proof (induction sts arbitrary: m)
  case Nil
  then show ?case by simp
next
  case (Cons st sts)
  have "all_cleared (hydrate_one st m)"
    using Cons.prems by (auto simp: all_cleared_def map_of_hydrate_one split: if_splits)
  then show ?case using Cons.IH by simp
qed

lemma hydrate_keeps:
  "map_of (accounts m) k = Some a \<Longrightarrow> map_of (accounts (hydrateFromAuthStore env x m)) k = Some a"
  by (simp add: hydrateFromAuthStore_def Let_def fold_hydrate_one_keeps split: option.splits)

lemma hydrate_all_cleared:
  "all_cleared m \<Longrightarrow> all_cleared (hydrateFromAuthStore env x m)"
  by (simp add: hydrateFromAuthStore_def Let_def fold_hydrate_one_all_cleared split: option.splits)

lemma load_from_file:
  "dataFile m = Some cs \<Longrightarrow> c \<in> set cs \<Longrightarrow>
     \<exists>a. map_of (accounts (load env m)) (id' c) = Some a \<and> cleared a"
  using fold_load_one_cleared [of c cs m] hydrate_keeps
  by (auto simp: load_def Let_def)

lemma load_after_save_all_cleared:
  assumes "keys_match m"
  shows "all_cleared (load env (save m))"
proof -
  let ?cs = "map (\<lambda>(k, acc). credentials_of acc) (accounts m)"
  let ?m1 = "fold load_one ?cs (save m)"
  have "cleared a" if "map_of (accounts ?m1) k = Some a" for k a
  proof (cases "k \<in> id' ` set ?cs")
    case True
    then obtain c where "c \<in> set ?cs" "k = id' c" by blast
    then show ?thesis using fold_load_one_cleared [of c ?cs "save m"] that by auto
  next
    case False
    then have "map_of (accounts m) k = Some a"
      using that fold_load_one_other [of k ?cs "save m"] by simp
    then have "(k, a) \<in> set (accounts m)" "id' a = k"
      using assms by (auto simp: keys_match_def dest: map_of_SomeD)
    then have "credentials_of a \<in> set ?cs" "id' (credentials_of a) = k"
      by (auto simp: credentials_of_def intro!: rev_image_eqI)
    then show ?thesis using False by blast
  qed
  then have "all_cleared ?m1" by (simp add: all_cleared_def)
  then have "all_cleared (if accounts ?m1 = [] then hydrateFromAuthStore env None ?m1 else ?m1)"
    by (simp add: hydrate_all_cleared)
  then show ?thesis
    by (simp add: load_def Let_def save_def all_cleared_def)
qed

lemma save_ignores_lockouts:
  "dataFile (save (m\<lparr>accounts :=
       map (\<lambda>(k, a). (k, a\<lparr>categoryRateLimits := c k, rateLimitedUntil := r k,
                               consecutiveFailures := n k\<rparr>)) (accounts m)\<rparr>))
   = dataFile (save m)"
  by (simp add: save_def credentials_of_def case_prod_beta comp_def)


text \<open>
  C9. What \<open>save\<close> writes is built from the six fields \<open>id\<close>, \<open>email\<close>, \<open>accessToken\<close>,
  \<open>refreshToken\<close>, \<open>expiresAt\<close> and \<open>projectId\<close> of each account: whatever the category
  lockouts, the global lockout and the failure counters of the accounts are, the file is
  the same. Every account that \<open>load\<close> reads from the roster file is registered
  afterwards with a null global lockout, a failure counter of 0 and an empty category
  lockout map. And when a manager in any state that a run of operations can reach is saved
  and then loaded, every registered account is in that cleared state.
\<close>

theorem lockouts_not_persisted:
  "dataFile (save (m\<lparr>accounts :=
       map (\<lambda>(k, a). (k, a\<lparr>categoryRateLimits := c k, rateLimitedUntil := r k,
                               consecutiveFailures := n k\<rparr>)) (accounts m)\<rparr>))
     = dataFile (save m)
   \<and> (\<forall>cs cred. dataFile m = Some cs \<and> cred \<in> set cs \<longrightarrow>
         (\<exists>a. map_of (accounts (load env m)) (id' cred) = Some a
              \<and> rateLimitedUntil a = None \<and> consecutiveFailures a = 0
              \<and> categoryRateLimits a = (\<lambda>_. None)))
   \<and> (\<forall>k a. map_of (accounts (load env (save (lifecycle roster ops)))) k = Some a \<longrightarrow>
            rateLimitedUntil a = None \<and> consecutiveFailures a = 0
            \<and> categoryRateLimits a = (\<lambda>_. None))"
proof -
  have 1: "dataFile (save (m\<lparr>accounts :=
       map (\<lambda>(k, a). (k, a\<lparr>categoryRateLimits := c k, rateLimitedUntil := r k,
                               consecutiveFailures := n k\<rparr>)) (accounts m)\<rparr>))
     = dataFile (save m)"
    by (rule save_ignores_lockouts)
  have 2: "\<exists>a. map_of (accounts (load env m)) (id' x) = Some a
              \<and> rateLimitedUntil a = None \<and> consecutiveFailures a = 0
              \<and> categoryRateLimits a = (\<lambda>_. None)"
    if "dataFile m = Some cs" "x \<in> set cs" for cs x
    using load_from_file [OF that] by (simp add: cleared_def)
  have km: "keys_match (lifecycle roster ops)"
    using wf_lifecycle wf_keys_match by blast
  have 3: "rateLimitedUntil a = None \<and> consecutiveFailures a = 0
            \<and> categoryRateLimits a = (\<lambda>_. None)"
    if "map_of (accounts (load env (save (lifecycle roster ops)))) k = Some a" for k a
    using load_after_save_all_cleared [OF km, of env] that
    by (simp add: all_cleared_def cleared_def)
  show ?thesis using 1 2 3 by blast
qed

lemma locked_lifecycle:
  "map_of (accounts (lifecycle None
      [AddAccount (sample_credentials ''A''), MarkRateLimited 1000 ''A'' 60000 None])) ''A''
   = Some ((fresh_account (sample_credentials ''A''))
       \<lparr>rateLimitedUntil := Some 61000, consecutiveFailures := 1\<rparr>)"
  by (simp add: lifecycle_def addAccount_def markRateLimited_def record_lockout_def
        new_AccountManager_def sample_credentials_def getModelCategory_def given_def
        set_account_def fresh_account_def)

theorem lockouts_not_persisted_witness:
  "dataFile (save locked_manager) = Some [sample_credentials ''A'']
   \<and> sample_credentials ''A'' \<in> set [sample_credentials ''A'']
   \<and> rateLimitedUntil locked_account = Some 61000
   \<and> (\<exists>a. map_of (accounts (load sample_env (save locked_manager))) ''A'' = Some a
            \<and> rateLimitedUntil a = None \<and> consecutiveFailures a = 0
            \<and> categoryRateLimits a = (\<lambda>_. None))
   \<and> (\<exists>b. map_of (accounts (lifecycle None
             [AddAccount (sample_credentials ''A''), MarkRateLimited 1000 ''A'' 60000 None]))
             ''A'' = Some b
            \<and> rateLimitedUntil b = Some 61000)
   \<and> (\<exists>a. map_of (accounts (load sample_env (save (lifecycle None
             [AddAccount (sample_credentials ''A''), MarkRateLimited 1000 ''A'' 60000 None]))))
             ''A'' = Some a
            \<and> rateLimitedUntil a = None \<and> consecutiveFailures a = 0
            \<and> categoryRateLimits a = (\<lambda>_. None))"
proof -
  let ?ops = "[AddAccount (sample_credentials ''A''), MarkRateLimited 1000 ''A'' 60000 None]"
  have f: "dataFile (save locked_manager) = Some [sample_credentials ''A'']"
    by (simp add: save_def locked_manager_def locked_account_def credentials_of_def
        fresh_account_def sample_credentials_def)
  have l: "rateLimitedUntil locked_account = Some 61000"
    by (simp add: locked_account_def)
  have i: "id' (sample_credentials ''A'') = ''A''"
    by (simp add: sample_credentials_def)
  have e: "\<exists>a. map_of (accounts (load sample_env (save (lifecycle None ?ops)))) ''A'' = Some a"
    using load_from_file [of "save (lifecycle None ?ops)" "[sample_credentials ''A'']"
        "sample_credentials ''A''" sample_env] i
    by (auto simp: lifecycle_def addAccount_def markRateLimited_def record_lockout_def
        new_AccountManager_def getModelCategory_def given_def
        set_account_def save_def credentials_of_def fresh_account_def sample_credentials_def)
  show ?thesis
    using lockouts_not_persisted [where m = "save locked_manager" and env = sample_env
        and roster = None and ops = ?ops]
      f l i e locked_lifecycle
    by (auto simp del: One_nat_def)
qed



subsection \<open>The rotation queue\<close>

lemma queue_fold_load_one [simp]: "accountQueue (fold load_one cs m) = accountQueue m"
  by (induction cs arbitrary: m) (simp_all add: load_one_def)

lemma queue_fold_hydrate_one [simp]: "accountQueue (fold hydrate_one sts m) = accountQueue m"
  by (induction sts arbitrary: m) (simp_all add: hydrate_one_def)

lemma queue_hydrate [simp]: "accountQueue (hydrateFromAuthStore env x m) = accountQueue m"
  by (simp add: hydrateFromAuthStore_def Let_def split: option.splits)

lemma queue_load [simp]: "accountQueue (load env m) = accountQueue m"
  by (simp add: load_def Let_def split: option.splits)

lemma queue_ensureLoaded [simp]: "accountQueue (ensureLoaded env m) = accountQueue m"
  by (simp add: ensureLoaded_def)

lemma prepare_fills_empty_queue:
  "accountQueue m = [] \<Longrightarrow>
     accountQueue (prepare env m) = map fst (accounts (prepare env m))"
  by (simp add: prepare_def Let_def ensureQueueInitialized_def)

lemma choose_account_same_ids:
  assumes "keys_match m"
  shows "same_ids m (snd (choose_account env forceRotate modelId m))"
proof -
  have scan: "same_ids m (snd (scan_queue env h modelId q m))" for h q
    using scan_queue_inv [OF assms] by blast
  have sticky: "same_ids m (snd r)" if "sticky_head env h modelId m = Some r" for h r
    using sticky_head_inv [OF assms that] by blast
  show ?thesis
    using scan sticky
    by (auto simp: choose_account_def Let_def split: option.splits)
qed

lemma complete_same_ids: "queue_complete m \<Longrightarrow> same_ids m m' \<Longrightarrow> queue_complete m'"
  unfolding queue_complete_def same_ids_def by (metis set_map)

lemma complete_addAccount: "queue_complete m \<Longrightarrow> queue_complete (addAccount c m)"
  by (auto simp: queue_complete_def addAccount_def dom_update)

lemma complete_remove_by_id:
  assumes "well_formed m" "queue_complete m"
  shows "queue_complete (remove_by_id k m)"
proof -
  have "distinct (accountQueue m)" using assms(1) by (simp add: well_formed_def queue_ok_def)
  then have "set (remove1 k (accountQueue m)) = set (accountQueue m) - {k}" by simp
  then show ?thesis
    using assms(2) by (simp add: queue_complete_def remove_by_id_def keys_delete)
qed

lemma complete_removeAccount:
  "well_formed m \<Longrightarrow> queue_complete m \<Longrightarrow> queue_complete (snd (removeAccount x m))"
  by (simp add: removeAccount_def complete_remove_by_id split: option.splits prod.splits)

lemma set_move_to_end:
  assumes "k \<in> set q"
  shows "set (remove1 k q @ [k]) = set q"
proof (rule set_eqI)
  fix x
  show "x \<in> set (remove1 k q @ [k]) \<longleftrightarrow> x \<in> set q"
  proof (cases "x = k")
    case True
    then show ?thesis using assms by simp
  next
    case False
    then show ?thesis by (simp add: in_set_remove1)
  qed
qed

lemma complete_moveToEndOfQueue:
  "queue_complete m \<Longrightarrow> queue_complete (moveToEndOfQueue k m)"
  by (simp add: queue_complete_def moveToEndOfQueue_def set_move_to_end del: set_append)

lemma complete_set_account:
  "queue_complete m \<Longrightarrow> map_of (accounts m) k = Some old \<Longrightarrow>
     queue_complete (set_account k acc m)"
  using complete_same_ids same_ids_set_account by blast

lemma complete_markRateLimited:
  "queue_complete m \<Longrightarrow> queue_complete (markRateLimited t k d modelId m)"
  by (auto simp: markRateLimited_def intro: complete_set_account split: option.splits)

lemma complete_markRateLimitedFromError:
  "queue_complete m \<Longrightarrow>
     queue_complete (snd (markRateLimitedFromError env k st body hdr modelId cap m))"
  by (auto simp: markRateLimitedFromError_def intro: complete_set_account
      split: option.splits prod.splits)

lemma complete_markSuccess:
  "queue_complete m \<Longrightarrow> queue_complete (markSuccess k modelId m)"
  by (auto simp: markSuccess_def intro: complete_set_account split: option.splits)

lemma complete_clearAllRateLimits:
  assumes "queue_complete m"
  shows "queue_complete (clearAllRateLimits modelId m)"
proof -
  have "map fst (map (\<lambda>(k, acc). (k, clear_account modelId acc)) (accounts m))
        = map fst (accounts m)"
    by (induction "accounts m") (auto simp: case_prod_beta)
  then have "fst ` set (map (\<lambda>(k, acc). (k, clear_account modelId acc)) (accounts m))
        = fst ` set (accounts m)"
    by (metis set_map)
  then show ?thesis using assms by (simp add: queue_complete_def clearAllRateLimits_def)
qed

lemma complete_prepare:
  assumes "queue_complete m" "loaded m \<or> accountQueue m = []"
  shows "queue_complete (prepare env m)"
proof (cases "accountQueue m = []")
  case True
  then show ?thesis
    using prepare_fills_empty_queue [OF True, of env] by (simp add: queue_complete_def)
next
  case False
  then have l: "loaded m" using assms(2) by simp
  have "accounts m \<noteq> []" using False assms(1) by (auto simp: queue_complete_def)
  then have "prepare env m = m"
    using l False by (simp add: prepare_def ensureLoaded_def ensureQueueInitialized_def Let_def)
  then show ?thesis using assms(1) by simp
qed

lemma complete_getNextAvailableAccount:
  assumes "well_formed m" "queue_complete m" "loaded m \<or> accountQueue m = []"
  shows "queue_complete (snd (getNextAvailableAccount env forceRotate modelId m))"
proof -
  have "keys_match (prepare env m)" using assms(1) wf_prepare wf_keys_match by blast
  then have "same_ids (prepare env m)
               (snd (getNextAvailableAccount env forceRotate modelId m))"
    by (simp add: getNextAvailableAccount_def choose_account_same_ids)
  then show ?thesis using complete_prepare [OF assms(2,3)] complete_same_ids by blast
qed

lemma deliver_by_id_same_ids:
  assumes km: "keys_match m"
  shows "same_ids m (snd (deliver_by_id env accountId modelId m))"
proof (cases "map_of (accounts m) accountId")
  case None
  then show ?thesis by (simp add: deliver_by_id_def)
next
  case (Some account)
  have ida: "id' account = accountId" using Some km by (simp add: keys_match_def)
  have locked: "same_ids m (set_account accountId (account\<lparr>rateLimitedUntil := x\<rparr>) m)" for x
    using Some by (rule same_ids_set_account)
  have plain: "same_ids m (snd (hand_out env accountId account m))"
    using hand_out_inv [OF Some ida km] by blast
  have refreshed: "same_ids m (snd (hand_out env accountId (refreshed_account env account tok e)
                  (save (set_account accountId (refreshed_account env account tok e) m))))"
    for tok e
  proof -
    let ?a = "refreshed_account env account tok e"
    let ?s = "save (set_account accountId ?a m)"
    have ida': "id' ?a = accountId" using ida by simp
    have s: "same_ids m ?s" using Some by (simp add: same_ids_set_account)
    have k: "keys_match ?s" using km ida' by (simp add: keys_match_set_account)
    have a': "map_of (accounts ?s) accountId = Some ?a" by simp
    from hand_out_inv [OF a' ida' k] s show ?thesis using same_ids_trans by blast
  qed
  show ?thesis
    using Some locked plain refreshed
    by (simp add: deliver_by_id_def Let_def split: option.splits prod.splits)
qed

lemma complete_getAccountById:
  assumes "well_formed m" "queue_complete m" "loaded m" "map_of (accounts m) accountId \<noteq> None"
  shows "queue_complete (snd (getAccountById env accountId modelId m))"
proof -
  have "prepare_by_id env accountId m = m"
    using assms(3,4) by (auto simp: prepare_by_id_def ensureLoaded_def Let_def)
  then have "getAccountById env accountId modelId m = deliver_by_id env accountId modelId m"
    by (simp add: getAccountById_def)
  then show ?thesis
    using deliver_by_id_same_ids [OF wf_keys_match [OF assms(1)]] assms(2) complete_same_ids
    by metis
qed

lemma complete_perform:
  assumes "well_formed m" "queue_complete m" "queues_what_it_registers op m"
  shows "queue_complete (perform op m)"
  using assms
  by (cases op)
    (simp_all add: complete_addAccount complete_removeAccount complete_moveToEndOfQueue
      complete_markRateLimited complete_markRateLimitedFromError complete_markSuccess
      complete_clearAllRateLimits complete_getNextAvailableAccount complete_getAccountById
      hasAccount_def ensureLoaded_def Let_def)

lemma complete_fold_perform:
  "well_formed m \<Longrightarrow> queue_complete m \<Longrightarrow> run_queues_what_it_registers ops m \<Longrightarrow>
     queue_complete (fold perform ops m)"
proof (induction ops arbitrary: m)
  case Nil
  then show ?case by simp
next
  case (Cons op ops)
  have "queue_complete (fold perform ops (perform op m))"
  proof (rule Cons.IH)
    show "well_formed (perform op m)" using Cons.prems(1) by (rule wf_perform)
    show "queue_complete (perform op m)" using Cons.prems by (simp add: complete_perform)
    show "run_queues_what_it_registers ops (perform op m)" using Cons.prems(3) by simp
  qed
  then show ?case by simp
qed

lemma permutation_iff_complete:
  assumes "well_formed m"
  shows "mset (accountQueue m) = mset (map fst (accounts m)) \<longleftrightarrow> queue_complete m"
proof -
  have d: "distinct (accountQueue m)" "distinct (map fst (accounts m))"
    using assms by (simp_all add: well_formed_def registry_ok_def queue_ok_def)
  have "set (map fst (accounts m)) = fst ` set (accounts m)" by simp
  then show ?thesis
    using set_eq_iff_mset_eq_distinct [OF d] by (simp add: queue_complete_def)
qed

text \<open>
  C4, as the code has it. After any run of operations on a new manager, whatever roster
  file it finds, the rotation queue holds no id twice and every queue entry is a
  registered account id (and the registry holds no id twice). The queue is filled lazily:
  a selection that starts with an empty queue leaves the queue equal to the list of the
  registered ids. Once the queue is a permutation of the registered ids it stays one: no
  id is dropped from it and none is queued twice by any further run of \<open>addAccount\<close>,
  \<open>removeAccount\<close>, \<open>moveToEndOfQueue\<close>, \<open>markRateLimited\<close>,
  \<open>markRateLimitedFromError\<close>, \<open>markSuccess\<close>, \<open>clearAllRateLimits\<close>, of
  \<open>hasAccount\<close> and of \<open>getAccountById\<close> for a registered id on a loaded manager, and
  of \<open>getNextAvailableAccount\<close> on a manager that is loaded or has an empty queue.
\<close>

theorem queue_entries_registered_once:
  "distinct (accountQueue (lifecycle roster ops))
   \<and> set (accountQueue (lifecycle roster ops)) \<subseteq> fst ` set (accounts (lifecycle roster ops))
   \<and> distinct (map fst (accounts (lifecycle roster ops)))
   \<and> (accountQueue (lifecycle roster ops) = [] \<longrightarrow>
        accountQueue (snd (getNextAvailableAccount env forceRotate modelId (lifecycle roster ops)))
        = map fst (accounts
            (snd (getNextAvailableAccount env forceRotate modelId (lifecycle roster ops)))))
   \<and> (mset (accountQueue (lifecycle roster ops))
          = mset (map fst (accounts (lifecycle roster ops)))
        \<and> run_queues_what_it_registers later (lifecycle roster ops) \<longrightarrow>
        mset (accountQueue (fold perform later (lifecycle roster ops)))
          = mset (map fst (accounts (fold perform later (lifecycle roster ops)))))"
proof -
  let ?m = "lifecycle roster ops"
  have wf: "well_formed ?m" by (rule wf_lifecycle)
  have "keys_match (prepare env ?m)"
    using wf wf_prepare wf_keys_match by blast
  then have "same_ids (prepare env ?m)
               (snd (getNextAvailableAccount env forceRotate modelId ?m))"
    by (simp add: getNextAvailableAccount_def choose_account_same_ids)
  then have fill: "accountQueue (snd (getNextAvailableAccount env forceRotate modelId ?m))
        = map fst (accounts (snd (getNextAvailableAccount env forceRotate modelId ?m)))"
    if "accountQueue ?m = []"
    using prepare_fills_empty_queue [OF that, of env] by (simp add: same_ids_def)
  have keep: "mset (accountQueue (fold perform later ?m))
          = mset (map fst (accounts (fold perform later ?m)))"
    if "mset (accountQueue ?m) = mset (map fst (accounts ?m))"
      "run_queues_what_it_registers later ?m"
  proof -
    have "queue_complete ?m" using that(1) permutation_iff_complete [OF wf] by simp
    then have "queue_complete (fold perform later ?m)"
      using wf that(2) complete_fold_perform by blast
    then show ?thesis
      using permutation_iff_complete [OF wf_fold_perform [OF wf]] by simp
  qed
  show ?thesis
    using wf fill keep by (simp add: well_formed_def registry_ok_def queue_ok_def)
qed

lemmas lifecycle_eval =
  lifecycle_def load_def load_one_def addAccount_def save_def new_AccountManager_def
  sample_credentials_def fresh_account_def credentials_of_def getNextAvailableAccount_def
  prepare_def ensureLoaded_def ensureQueueInitialized_def choose_account_def sticky_head_def
  hasIdleAccount_def truthy_after_def isAccountDisabled_def hasModelQuota_def near_expiry_def
  hand_out_def ensureProjectId_def sample_env_def Let_def hydrateFromAuthStore_def

text \<open>
  A manager that has loaded account A from its roster file has an empty queue, and its
  first selection leaves the queue and the registry at A. From there the queue is a
  permutation of the registry; adding B, demoting A and selecting again leave the queue at
  B, A and the registry at A, B.
\<close>

theorem queue_entries_registered_once_witness:
  "accountQueue (lifecycle (Some [sample_credentials ''A'']) [Load sample_env]) = []
   \<and> accountQueue (snd (getNextAvailableAccount sample_env False None
         (lifecycle (Some [sample_credentials ''A'']) [Load sample_env]))) = [''A'']
   \<and> map fst (accounts (snd (getNextAvailableAccount sample_env False None
         (lifecycle (Some [sample_credentials ''A'']) [Load sample_env])))) = [''A'']
   \<and> accountQueue (lifecycle (Some [sample_credentials ''A''])
         [Load sample_env, GetNextAvailableAccount sample_env False None]) = [''A'']
   \<and> map fst (accounts (lifecycle (Some [sample_credentials ''A''])
         [Load sample_env, GetNextAvailableAccount sample_env False None])) = [''A'']
   \<and> run_queues_what_it_registers
         [AddAccount (sample_credentials ''B''), MoveToEndOfQueue ''A'',
          GetNextAvailableAccount sample_env False None]
         (lifecycle (Some [sample_credentials ''A''])
           [Load sample_env, GetNextAvailableAccount sample_env False None])
   \<and> accountQueue (fold perform
         [AddAccount (sample_credentials ''B''), MoveToEndOfQueue ''A'',
          GetNextAvailableAccount sample_env False None]
         (lifecycle (Some [sample_credentials ''A''])
           [Load sample_env, GetNextAvailableAccount sample_env False None])) = [''B'', ''A'']
   \<and> map fst (accounts (fold perform
         [AddAccount (sample_credentials ''B''), MoveToEndOfQueue ''A'',
          GetNextAvailableAccount sample_env False None]
         (lifecycle (Some [sample_credentials ''A''])
           [Load sample_env, GetNextAvailableAccount sample_env False None]))) = [''A'', ''B'']
   \<and> mset (accountQueue (fold perform
         [AddAccount (sample_credentials ''B''), MoveToEndOfQueue ''A'',
          GetNextAvailableAccount sample_env False None]
         (lifecycle (Some [sample_credentials ''A''])
           [Load sample_env, GetNextAvailableAccount sample_env False None])))
       = mset (map fst (accounts (fold perform
         [AddAccount (sample_credentials ''B''), MoveToEndOfQueue ''A'',
          GetNextAvailableAccount sample_env False None]
         (lifecycle (Some [sample_credentials ''A''])
           [Load sample_env, GetNextAvailableAccount sample_env False None]))))"
proof -
  let ?later = "[AddAccount (sample_credentials ''B''), MoveToEndOfQueue ''A'',
          GetNextAvailableAccount sample_env False None]"
  let ?m = "lifecycle (Some [sample_credentials ''A''])
           [Load sample_env, GetNextAvailableAccount sample_env False None]"
  have e: "accountQueue (lifecycle (Some [sample_credentials ''A'']) [Load sample_env]) = []"
    by (simp add: lifecycle_eval)
  have a: "map fst (accounts (snd (getNextAvailableAccount sample_env False None
         (lifecycle (Some [sample_credentials ''A'']) [Load sample_env])))) = [''A'']"
    by (simp add: lifecycle_eval)
  have q: "accountQueue ?m = [''A'']" by (simp add: lifecycle_eval)
  have r: "map fst (accounts ?m) = [''A'']" by (simp add: lifecycle_eval)
  have l: "loaded ?m" by (simp add: lifecycle_eval)
  have run: "run_queues_what_it_registers ?later ?m"
    using l by (simp add: lifecycle_eval moveToEndOfQueue_def)
  have q': "accountQueue (fold perform ?later ?m) = [''B'', ''A'']"
    by (simp add: lifecycle_eval moveToEndOfQueue_def)
  have r': "map fst (accounts (fold perform ?later ?m)) = [''A'', ''B'']"
    by (simp add: lifecycle_eval moveToEndOfQueue_def)
  have perm: "mset (accountQueue ?m) = mset (map fst (accounts ?m))"
    by (simp only: q r)
  have keep: "mset (accountQueue (fold perform ?later ?m))
       = mset (map fst (accounts (fold perform ?later ?m)))"
    using queue_entries_registered_once [where roster = "Some [sample_credentials ''A'']"
        and ops = "[Load sample_env, GetNextAvailableAccount sample_env False None]"
        and env = sample_env and forceRotate = False and modelId = None and later = ?later]
      perm run
    by blast
  show ?thesis
    using queue_entries_registered_once [where roster = "Some [sample_credentials ''A'']"
        and ops = "[Load sample_env]" and env = sample_env and forceRotate = False
        and modelId = None and later = "[]"]
      e a q r run q' r' keep
    by simp
qed

text \<open>
  C4 as the specification words it asks that every registered id is in the queue at every
  point. A manager that has loaded account A from its roster file has A registered and an
  empty queue. When it is then given account B by \<open>addAccount\<close> and serves a selection, it
  has A and B registered and only B in its queue: the queue is initialised from the
  registry only while it is empty.
\<close>

theorem queue_misses_loaded_account:
  "map fst (accounts (lifecycle (Some [sample_credentials ''A'']) [Load sample_env])) = [''A'']
   \<and> accountQueue (lifecycle (Some [sample_credentials ''A'']) [Load sample_env]) = []
   \<and> map fst (accounts (lifecycle (Some [sample_credentials ''A''])
      [Load sample_env, AddAccount (sample_credentials ''B''),
       GetNextAvailableAccount sample_env False None])) = [''A'', ''B'']
   \<and> accountQueue (lifecycle (Some [sample_credentials ''A''])
      [Load sample_env, AddAccount (sample_credentials ''B''),
       GetNextAvailableAccount sample_env False None]) = [''B'']"
  by (simp add: lifecycle_eval)

subsection \<open>Token refresh failures during selection\<close>

lemma ensureProjectId_other:
  "k' \<noteq> k \<Longrightarrow>
     map_of (accounts (snd (ensureProjectId env k account m))) k' = map_of (accounts m) k'"
  by (simp add: ensureProjectId_def resolve_project_def Let_def split: option.splits)

lemma ensureProjectId_same:
  "map_of (accounts m) k = Some account \<Longrightarrow>
     \<exists>p. map_of (accounts (snd (ensureProjectId env k account m))) k
           = Some (account\<lparr>projectId := p\<rparr>)"
proof -
  assume a: "map_of (accounts m) k = Some account"
  have "account = account\<lparr>projectId := projectId account\<rparr>" by simp
  then have "\<exists>p. map_of (accounts m) k = Some (account\<lparr>projectId := p\<rparr>)"
    using a by metis
  then show ?thesis
    by (auto simp: ensureProjectId_def resolve_project_def Let_def split: option.splits)
qed

lemma hand_out_selection:
  "\<exists>sel. fst (hand_out env k account m) = Some sel
         \<and> sel_accountId sel = id' account \<and> sel_accessToken sel = accessToken account"
  by (cases "ensureProjectId env k account m") (simp add: hand_out_def)

lemma hand_out_other:
  "k' \<noteq> k \<Longrightarrow> map_of (accounts (snd (hand_out env k account m))) k' = map_of (accounts m) k'"
  using ensureProjectId_other [of k' k env account m]
  by (cases "ensureProjectId env k account m") (simp add: hand_out_def)

lemma hand_out_same:
  "map_of (accounts m) k = Some account \<Longrightarrow>
     \<exists>p. map_of (accounts (snd (hand_out env k account m))) k
           = Some (account\<lparr>projectId := p\<rparr>)"
  using ensureProjectId_same [of m k account env]
  by (cases "ensureProjectId env k account m") (simp add: hand_out_def)

lemma scan_queue_skips_locked:
  assumes "keys_match m" "map_of (accounts m) k = Some a"
    "truthy_after (rateLimitedUntil a) (now env)"
  shows "map_of (accounts (snd (scan_queue env h modelId q m))) k = Some a
       \<and> (\<forall>sel. fst (scan_queue env h modelId q m) = Some sel \<longrightarrow> sel_accountId sel \<noteq> k)"
  using assms
proof (induction q arbitrary: m h)
  case Nil
  then show ?case by simp
next
  case (Cons k' q)
  note IH = Cons.IH [OF Cons.prems]
  show ?case
  proof (cases "k' = k")
    case True
    then show ?thesis using Cons.prems IH by simp
  next
    case False
    show ?thesis
    proof (cases "map_of (accounts m) k'")
      case None
      then show ?thesis using IH by simp
    next
      case (Some account)
      have idk: "id' account = k'" using Some Cons.prems(1) by (simp add: keys_match_def)
      let ?locked = "set_account k' (account\<lparr>rateLimitedUntil := Some (now env + 60000)\<rparr>) m"
      have locked: "map_of (accounts (snd (scan_queue env h' modelId q ?locked))) k = Some a
         \<and> (\<forall>sel. fst (scan_queue env h' modelId q ?locked) = Some sel
               \<longrightarrow> sel_accountId sel \<noteq> k)" for h'
      proof (rule Cons.IH)
        show "keys_match ?locked" using Cons.prems(1) idk by (simp add: keys_match_set_account)
        show "map_of (accounts ?locked) k = Some a" using False Cons.prems(2) by simp
        show "truthy_after (rateLimitedUntil a) (now env)" by (rule Cons.prems(3))
      qed
      have out: "map_of (accounts (snd (hand_out env k' acc' m'))) k = Some a
         \<and> (\<forall>sel. fst (hand_out env k' acc' m') = Some sel \<longrightarrow> sel_accountId sel \<noteq> k)"
        if "id' acc' = k'" "map_of (accounts m') k = Some a" for acc' m'
        using hand_out_other [of k k' env acc' m'] hand_out_selection [of env k' acc' m']
          False that by auto
      have plain: "map_of (accounts (snd (hand_out env k' account
                      (m\<lparr>lastUsedAccount := x\<rparr>)))) k = Some a
         \<and> (\<forall>sel. fst (hand_out env k' account (m\<lparr>lastUsedAccount := x\<rparr>)) = Some sel
               \<longrightarrow> sel_accountId sel \<noteq> k)" for x
        by (rule out) (simp_all add: idk Cons.prems(2))
      have refreshed: "map_of (accounts (snd (hand_out env k' (refreshed_account env account tok e)
                      ((save (set_account k' (refreshed_account env account tok e) m))
                         \<lparr>lastUsedAccount := x\<rparr>)))) k = Some a
         \<and> (\<forall>sel. fst (hand_out env k' (refreshed_account env account tok e)
                      ((save (set_account k' (refreshed_account env account tok e) m))
                         \<lparr>lastUsedAccount := x\<rparr>)) = Some sel
               \<longrightarrow> sel_accountId sel \<noteq> k)" for tok e x
        by (rule out) (simp_all add: idk Cons.prems(2) False [symmetric])
      show ?thesis
        using Some IH locked plain refreshed
        by (simp add: Let_def split: option.splits prod.splits)
    qed
  qed
qed

text \<open>
  C10. Let the head of the queue be a registered account that passes every filter (not
  locked out, not disabled, not passed over for an idle account, enough quota), whose
  token is within the expiry margin and whose refresh throws. Without \<open>forceRotate\<close>,
  \<open>getNextAvailableAccount\<close> returns that account with the access token it had, and the
  account keeps its token, its expiry and its lockout state. With \<open>forceRotate\<close>, the scan
  sets the account's \<open>rateLimitedUntil\<close> to now + 60000 and does not return it.
\<close>

theorem refresh_failure_sticky_versus_scan:
  assumes "well_formed m0"
    and "accountQueue (prepare env m0) = k # rest"
    and "map_of (accounts (prepare env m0)) k = Some account"
    and "\<not> truthy_after (rateLimitedUntil account) (now env)"
    and "\<not> isAccountDisabled env ''antigravity'' k"
    and "\<not> (hasIdleAccount env (prepare env m0) \<and> k \<in> inFlightAccounts (prepare env m0))"
    and "hasModelQuota env modelId (prepare env m0) k"
    and "near_expiry env account"
    and "refreshAccessToken env (refreshToken account) = None"
    and "0 \<le> now env"
  shows "(\<exists>sel m'. getNextAvailableAccount env False modelId m0 = (Some sel, m')
            \<and> sel_accountId sel = k \<and> sel_accessToken sel = accessToken account
            \<and> (\<exists>a. map_of (accounts m') k = Some a
                  \<and> accessToken a = accessToken account
                  \<and> expiresAt a = expiresAt account
                  \<and> rateLimitedUntil a = rateLimitedUntil account
                  \<and> consecutiveFailures a = consecutiveFailures account
                  \<and> categoryRateLimits a = categoryRateLimits account))
       \<and> (\<exists>r m'. getNextAvailableAccount env True modelId m0 = (r, m')
            \<and> (\<forall>sel. r = Some sel \<longrightarrow> sel_accountId sel \<noteq> k)
            \<and> (\<exists>a. map_of (accounts m') k = Some a
                  \<and> accessToken a = accessToken account
                  \<and> rateLimitedUntil a = Some (now env + 60000)))"
proof -
  let ?m = "prepare env m0"
  have km: "keys_match ?m" using assms(1) wf_prepare wf_keys_match by blast
  have idk: "id' account = k" using km assms(3) by (simp add: keys_match_def)
  have ne: "accounts ?m \<noteq> []" using assms(3) by auto
  \<comment> \<open>the sticky path\<close>
  let ?m1 = "?m\<lparr>lastUsedAccount := Some (id' account, now env)\<rparr>"
  have st: "sticky_head env (hasIdleAccount env ?m) modelId ?m
            = Some (hand_out env k account ?m1)"
    using assms(2-9) by (simp add: sticky_head_def Let_def)
  have g1: "getNextAvailableAccount env False modelId m0 = hand_out env k account ?m1"
    using st ne assms(2) by (simp add: getNextAvailableAccount_def choose_account_def Let_def)
  obtain sel where sel: "fst (hand_out env k account ?m1) = Some sel"
    "sel_accountId sel = id' account" "sel_accessToken sel = accessToken account"
    using hand_out_selection by blast
  have "map_of (accounts ?m1) k = Some account" using assms(3) by simp
  then obtain p where p: "map_of (accounts (snd (hand_out env k account ?m1))) k
           = Some (account\<lparr>projectId := p\<rparr>)"
    using hand_out_same by blast
  have sticky: "\<exists>sel m'. getNextAvailableAccount env False modelId m0 = (Some sel, m')
            \<and> sel_accountId sel = k \<and> sel_accessToken sel = accessToken account
            \<and> (\<exists>a. map_of (accounts m') k = Some a
                  \<and> accessToken a = accessToken account
                  \<and> expiresAt a = expiresAt account
                  \<and> rateLimitedUntil a = rateLimitedUntil account
                  \<and> consecutiveFailures a = consecutiveFailures account
                  \<and> categoryRateLimits a = categoryRateLimits account)"
    using g1 sel p idk
    by (intro exI [of _ sel] exI [of _ "snd (hand_out env k account ?m1)"])
       (simp add: prod_eq_iff)
  \<comment> \<open>the scan\<close>
  let ?a = "account\<lparr>rateLimitedUntil := Some (now env + 60000)\<rparr>"
  let ?locked = "set_account k ?a ?m"
  have g2: "getNextAvailableAccount env True modelId m0
            = scan_queue env (hasIdleAccount env ?m) modelId rest ?locked"
    using ne assms(2-9) by (auto simp: getNextAvailableAccount_def choose_account_def Let_def)
  have "truthy_after (rateLimitedUntil ?a) (now env)"
    using assms(10) by (simp add: truthy_after_def)
  moreover have "keys_match ?locked" using km idk by (simp add: keys_match_set_account)
  moreover have "map_of (accounts ?locked) k = Some ?a" by simp
  ultimately have sk:
    "map_of (accounts (snd (scan_queue env (hasIdleAccount env ?m) modelId rest ?locked))) k
       = Some ?a
     \<and> (\<forall>sel. fst (scan_queue env (hasIdleAccount env ?m) modelId rest ?locked) = Some sel
           \<longrightarrow> sel_accountId sel \<noteq> k)"
    using scan_queue_skips_locked by blast
  have scan: "\<exists>r m'. getNextAvailableAccount env True modelId m0 = (r, m')
            \<and> (\<forall>sel. r = Some sel \<longrightarrow> sel_accountId sel \<noteq> k)
            \<and> (\<exists>a. map_of (accounts m') k = Some a
                  \<and> accessToken a = accessToken account
                  \<and> rateLimitedUntil a = Some (now env + 60000))"
    using g2 sk
    by (intro exI [of _ "fst (scan_queue env (hasIdleAccount env ?m) modelId rest ?locked)"]
          exI [of _ "snd (scan_queue env (hasIdleAccount env ?m) modelId rest ?locked)"])
       simp
  show ?thesis using sticky scan by blast
qed


lemma prepare_expiring_manager: "prepare sample_env expiring_manager = expiring_manager"
  by (simp add: prepare_def ensureLoaded_def ensureQueueInitialized_def expiring_manager_def
      new_AccountManager_def Let_def)

lemma scan_expiring_manager:
  "fst (getNextAvailableAccount sample_env True None expiring_manager)
   = Some \<lparr>sel_accessToken = ''token-B'', sel_projectId = ''project-1'',
            sel_email = ''B@example.com'', sel_accountId = ''B''\<rparr>"
  by (simp add: getNextAvailableAccount_def prepare_expiring_manager choose_account_def Let_def)
     (simp add: expiring_manager_def new_AccountManager_def hasModelQuota_def near_expiry_def
        isAccountDisabled_def truthy_after_def hand_out_def ensureProjectId_def set_account_def
        fresh_account_def sample_credentials_def sample_env_def nothing_for_def)

theorem refresh_failure_sticky_versus_scan_witness:
  "(\<exists>sel m'. getNextAvailableAccount sample_env False None expiring_manager = (Some sel, m')
       \<and> sel_accountId sel = ''A'' \<and> sel_accessToken sel = ''token-A''
       \<and> (\<exists>a. map_of (accounts m') ''A'' = Some a
             \<and> accessToken a = ''token-A'' \<and> expiresAt a = 900000
             \<and> rateLimitedUntil a = None))
   \<and> (\<exists>sel m'. getNextAvailableAccount sample_env True None expiring_manager = (Some sel, m')
       \<and> sel_accountId sel = ''B'' \<and> sel_accountId sel \<noteq> ''A''
       \<and> (\<exists>a. map_of (accounts m') ''A'' = Some a
             \<and> accessToken a = ''token-A'' \<and> rateLimitedUntil a = Some 1060000))"
proof -
  let ?account = "fresh_account ((sample_credentials ''A'')\<lparr>expiresAt := 900000\<rparr>)"
  have h1: "well_formed expiring_manager"
    by (simp add: well_formed_def registry_ok_def queue_ok_def keys_match_def
        expiring_manager_def new_AccountManager_def fresh_account_def sample_credentials_def)
  have h2: "accountQueue (prepare sample_env expiring_manager) = ''A'' # [''B'']"
    by (simp add: prepare_expiring_manager) (simp add: expiring_manager_def)
  have h3: "map_of (accounts (prepare sample_env expiring_manager)) ''A'' = Some ?account"
    by (simp add: prepare_expiring_manager) (simp add: expiring_manager_def)
  have h4: "\<not> truthy_after (rateLimitedUntil ?account) (now sample_env)"
    by (simp add: truthy_after_def fresh_account_def)
  have h5: "\<not> isAccountDisabled sample_env ''antigravity'' ''A''"
    by (simp add: isAccountDisabled_def sample_env_def)
  have h6: "\<not> (hasIdleAccount sample_env (prepare sample_env expiring_manager)
             \<and> ''A'' \<in> inFlightAccounts (prepare sample_env expiring_manager))"
    by (simp add: prepare_expiring_manager) (simp add: expiring_manager_def new_AccountManager_def)
  have h7: "hasModelQuota sample_env None (prepare sample_env expiring_manager) ''A''"
    by (simp add: hasModelQuota_def)
  have h8: "near_expiry sample_env ?account"
    by (simp add: near_expiry_def fresh_account_def sample_env_def)
  have h9: "refreshAccessToken sample_env (refreshToken ?account) = None"
    by (simp add: sample_env_def nothing_for_def)
  have h10: "0 \<le> now sample_env"
    by (simp add: sample_env_def)
  have v: "accessToken ?account = ''token-A''" "expiresAt ?account = 900000"
    "rateLimitedUntil ?account = None" "now sample_env + 60000 = 1060000"
    by (simp_all add: fresh_account_def sample_credentials_def sample_env_def)
  show ?thesis
    using refresh_failure_sticky_versus_scan [OF h1 h2 h3 h4 h5 h6 h7 h8 h9 h10]
      scan_expiring_manager v
    by auto
qed

subsection \<open>The quota gate\<close>

lemma hasModelQuota_quota_ok:
  "model \<noteq> [] \<Longrightarrow> hasModelQuota env (Some model) m k \<Longrightarrow> quota_ok env model k"
  by (auto simp: hasModelQuota_def quota_ok_def split: option.splits if_splits)

lemma hand_out_id:
  "fst (hand_out env k account m) = Some sel \<Longrightarrow> sel_accountId sel = id' account"
  using hand_out_selection [of env k account m] by auto

lemma scan_queue_quota_gate:
  assumes "keys_match m" "model \<noteq> []"
    "fst (scan_queue env h (Some model) q m) = Some sel"
  shows "quota_ok env model (sel_accountId sel)"
  using assms
proof (induction q arbitrary: m h)
  case Nil
  then show ?case by simp
next
  case (Cons k q)
  show ?case
  proof (cases "map_of (accounts m) k")
    case None
    then show ?thesis using Cons by simp
  next
    case (Some account)
    have idk: "id' account = k" using Some Cons.prems(1) by (simp add: keys_match_def)
    let ?locked = "set_account k (account\<lparr>rateLimitedUntil := Some (now env + 60000)\<rparr>) m"
    have kl: "keys_match ?locked" using Cons.prems(1) idk by (simp add: keys_match_set_account)
    have skip: "fst (scan_queue env h' (Some model) q m) = Some sel
                 \<Longrightarrow> quota_ok env model (sel_accountId sel)" for h'
      using Cons.IH [OF Cons.prems(1,2)] by blast
    have locked: "fst (scan_queue env h' (Some model) q ?locked) = Some sel
                 \<Longrightarrow> quota_ok env model (sel_accountId sel)" for h'
      using Cons.IH [OF kl Cons.prems(2)] by blast
    have out: "quota_ok env model (sel_accountId sel)"
      if "hasModelQuota env (Some model) m k" "fst (hand_out env k acc' m') = Some sel"
         "id' acc' = k" for acc' m'
      using hasModelQuota_quota_ok [OF Cons.prems(2) that(1)] hand_out_id [OF that(2)] that(3)
      by simp
    show ?thesis
      using Cons.prems(3) Some skip locked out idk
      by (auto simp: Let_def split: if_splits option.splits prod.splits)
  qed
qed

lemma sticky_head_quota_gate:
  assumes "keys_match m" "model \<noteq> []"
    "sticky_head env h (Some model) m = Some (Some sel, m')"
  shows "quota_ok env model (sel_accountId sel)"
proof -
  from assms(3) obtain k rest account where
    q: "accountQueue m = k # rest" and a: "map_of (accounts m) k = Some account"
    and hq: "hasModelQuota env (Some model) m k"
    by (auto simp: sticky_head_def split: list.splits option.splits if_splits)
  have idk: "id' account = k" using a assms(1) by (simp add: keys_match_def)
  have "sel_accountId sel = k"
    using assms(3) q a idk hand_out_id
    by (auto simp: sticky_head_def Let_def split: if_splits option.splits prod.splits
        dest!: arg_cong [where f = fst])
  then show ?thesis using hasModelQuota_quota_ok [OF assms(2) hq] by simp
qed

lemma selection_passes_quota_gate:
  assumes "well_formed m0" "model \<noteq> []"
    "getNextAvailableAccount env forceRotate (Some model) m0 = (Some sel, m')"
  shows "\<exists>q. getAccountModelQuotaPercent env ''antigravity'' (sel_accountId sel) model = Some q
             \<and> q > reservePercent env"
proof -
  let ?m = "prepare env m0"
  have km: "keys_match ?m" using assms(1) wf_prepare wf_keys_match by blast
  have ne: "accounts ?m \<noteq> []"
    using assms(3) by (auto simp: getNextAvailableAccount_def choose_account_def)
  define r where "r = (if \<not> forceRotate \<and> accountQueue ?m \<noteq> []
                       then sticky_head env (hasIdleAccount env ?m) (Some model) ?m else None)"
  have g: "(case r of Some x \<Rightarrow> x
           | None \<Rightarrow> scan_queue env (hasIdleAccount env ?m) (Some model) (accountQueue ?m) ?m)
           = (Some sel, m')"
    using assms(3) ne by (simp add: getNextAvailableAccount_def choose_account_def Let_def r_def)
  have "quota_ok env model (sel_accountId sel)"
  proof (cases r)
    case None
    then have "fst (scan_queue env (hasIdleAccount env ?m) (Some model) (accountQueue ?m) ?m)
               = Some sel"
      using g by simp
    then show ?thesis using scan_queue_quota_gate [OF km assms(2)] by blast
  next
    case (Some x)
    then have "sticky_head env (hasIdleAccount env ?m) (Some model) ?m = Some (Some sel, m')"
      using g by (simp add: r_def split: if_splits)
    then show ?thesis using sticky_head_quota_gate [OF km assms(2)] by blast
  qed
  then show ?thesis by (simp add: quota_ok_def)
qed

text \<open>
  C5 holds of \<open>getNextAvailableAccount\<close> (the lemma above) and fails in
  \<open>getAccountById\<close>, whose quota check reads
  \<open>quotaPercent !== null && quotaPercent <= reservePercent\<close>: with a model id supplied,
  a registered account that is not disabled, not locked out and not near expiry, and for
  which the quota lookup returns null, is handed out by \<open>getAccountById\<close>, while
  \<open>getNextAvailableAccount\<close> never returns it.
\<close>

theorem null_quota_passes_getAccountById:
  assumes "well_formed m0"
    and "map_of (accounts (prepare_by_id env k m0)) k = Some account"
    and "\<not> isAccountDisabled env ''antigravity'' k"
    and "\<not> truthy_after (rateLimitedUntil account) (now env)"
    and "\<not> near_expiry env account"
    and "model \<noteq> []"
    and "getAccountModelQuotaPercent env ''antigravity'' k model = None"
  shows "(\<exists>sel m'. getAccountById env k (Some model) m0 = (Some sel, m')
            \<and> sel_accountId sel = k \<and> sel_accessToken sel = accessToken account)
       \<and> (\<forall>forceRotate sel m'.
            getNextAvailableAccount env forceRotate (Some model) m0 = (Some sel, m')
            \<longrightarrow> sel_accountId sel \<noteq> k)"
proof -
  let ?m = "prepare_by_id env k m0"
  have km: "keys_match ?m" using assms(1) wf_prepare_by_id wf_keys_match by blast
  have idk: "id' account = k" using km assms(2) by (simp add: keys_match_def)
  have g: "getAccountById env k (Some model) m0 = hand_out env k account ?m"
    using assms(2-7) by (simp add: getAccountById_def deliver_by_id_def)
  obtain sel where sel: "fst (hand_out env k account ?m) = Some sel"
    "sel_accountId sel = id' account" "sel_accessToken sel = accessToken account"
    using hand_out_selection by blast
  have 1: "\<exists>sel m'. getAccountById env k (Some model) m0 = (Some sel, m')
            \<and> sel_accountId sel = k \<and> sel_accessToken sel = accessToken account"
    using g sel idk
    by (intro exI [of _ sel] exI [of _ "snd (hand_out env k account ?m)"])
       (simp add: prod_eq_iff)
  have 2: "sel_accountId sel \<noteq> k"
    if "getNextAvailableAccount env forceRotate (Some model) m0 = (Some sel, m')"
    for forceRotate sel m'
    using selection_passes_quota_gate [OF assms(1,6) that] assms(7) by auto
  show ?thesis using 1 2 by blast
qed


lemmas two_accounts_eval =
  two_accounts_def one_account_def addAccount_def save_def new_AccountManager_def
  ensureLoaded_def load_def load_one_def Let_def credentials_of_def fresh_account_def
  sample_credentials_def

lemma prepare_by_id_two_accounts:
  "map_of (accounts (prepare_by_id sample_env ''A'' two_accounts)) ''A''
   = Some (fresh_account (sample_credentials ''A''))"
  by (simp add: prepare_by_id_def two_accounts_eval)

lemma wf_one_account: "well_formed one_account"
  by (simp add: one_account_def wf_addAccount wf_new)

lemma wf_two_accounts: "well_formed two_accounts"
  by (simp add: two_accounts_def wf_addAccount wf_one_account)

lemma select_from_two_accounts:
  "fst (getNextAvailableAccount sample_env False (Some ''gemini-3-pro-image'') two_accounts)
   = Some \<lparr>sel_accessToken = ''token-B'', sel_projectId = ''project-1'',
            sel_email = ''B@example.com'', sel_accountId = ''B''\<rparr>"
  by (simp add: getNextAvailableAccount_def prepare_def ensureQueueInitialized_def
        choose_account_def hasIdleAccount_def sticky_head_def truthy_after_def
        isAccountDisabled_def hasModelQuota_def isQuotaBlacklisted_def reservePercent_def
        near_expiry_def hand_out_def ensureProjectId_def sample_env_def nothing_for_def
        quota_percent_of_B_def two_accounts_eval)

lemma select_from_one_account:
  "fst (getNextAvailableAccount sample_env False (Some ''gemini-3-pro-image'') one_account)
   = None"
  by (simp add: getNextAvailableAccount_def prepare_def ensureQueueInitialized_def
        choose_account_def hasIdleAccount_def sticky_head_def truthy_after_def
        isAccountDisabled_def hasModelQuota_def isQuotaBlacklisted_def reservePercent_def
        sample_env_def nothing_for_def quota_percent_of_B_def two_accounts_eval)

theorem null_quota_passes_getAccountById_witness:
  "getAccountModelQuotaPercent sample_env ''antigravity'' ''A'' ''gemini-3-pro-image'' = None
   \<and> (\<exists>sel m'. getAccountById sample_env ''A'' (Some ''gemini-3-pro-image'') two_accounts
                  = (Some sel, m')
         \<and> sel_accountId sel = ''A'' \<and> sel_accessToken sel = ''token-A'')
   \<and> (\<exists>sel m'. getNextAvailableAccount sample_env False (Some ''gemini-3-pro-image'')
                  two_accounts = (Some sel, m')
         \<and> sel_accountId sel = ''B'' \<and> sel_accountId sel \<noteq> ''A'')
   \<and> fst (getNextAvailableAccount sample_env False (Some ''gemini-3-pro-image'') one_account)
       = None"
proof -
  let ?account = "fresh_account (sample_credentials ''A'')"
  have h3: "\<not> isAccountDisabled sample_env ''antigravity'' ''A''"
    by (simp add: isAccountDisabled_def sample_env_def)
  have h4: "\<not> truthy_after (rateLimitedUntil ?account) (now sample_env)"
    by (simp add: truthy_after_def fresh_account_def)
  have h5: "\<not> near_expiry sample_env ?account"
    by (simp add: near_expiry_def fresh_account_def sample_credentials_def)
  have h6: "''gemini-3-pro-image'' \<noteq> []" by simp
  have h7: "getAccountModelQuotaPercent sample_env ''antigravity'' ''A'' ''gemini-3-pro-image''
            = None"
    by (simp add: sample_env_def quota_percent_of_B_def)
  have t: "accessToken ?account = ''token-A''"
    by (simp add: fresh_account_def sample_credentials_def)
  note inst = null_quota_passes_getAccountById
    [OF wf_two_accounts prepare_by_id_two_accounts h3 h4 h5 h6 h7]
  obtain sel m' where r: "getNextAvailableAccount sample_env False (Some ''gemini-3-pro-image'')
                            two_accounts = (Some sel, m')" "sel_accountId sel = ''B''"
    using select_from_two_accounts
    by (cases "getNextAvailableAccount sample_env False (Some ''gemini-3-pro-image'')
                 two_accounts") auto
  then have "sel_accountId sel \<noteq> ''A''" using inst by blast
  then show ?thesis using inst r h7 t select_from_one_account by auto
qed

subsection \<open>The quota scenario\<close>

lemma trim_resource_exhausted_body: "trim resource_exhausted_body = resource_exhausted_body"
  by code_simp

lemma resource_exhausted_body_braces:
  "startsWith resource_exhausted_body ''{''"
  by code_simp

lemma structured_reason_resource_exhausted:
  "structured_reason resource_exhausted_json = Threw"
  by code_simp

lemma keyword_scan_resource_exhausted:
  "keyword_scan (toLowerCase resource_exhausted_body) = quota_exhausted"
  by code_simp

lemma classify_resource_exhausted:
  assumes "jp resource_exhausted_body = Some resource_exhausted_json"
  shows "parseRateLimitReason jp 429 resource_exhausted_body = quota_exhausted"
  using assms
  by (simp add: parseRateLimitReason_def structured_verdict_def Let_def
      trim_resource_exhausted_body resource_exhausted_body_braces
      structured_reason_resource_exhausted keyword_scan_resource_exhausted)

text \<open>
  C1. For the 429 body of the scenario, with no retry delay and no cached reset time, the
  classifier returns \<open>quota_exhausted\<close>, as the claim says. The lock that
  \<open>markRateLimitedFromError\<close> then records is 10000 ms, for any failure count: the branch
  for status 429 that gives rate limits and capacity errors their short values sets 10000
  for every other reason, \<open>quota_exhausted\<close> included, so the cool-down policy is not
  consulted. The shortest tier of the policy's quota schedule is 300000 ms.
\<close>

theorem quota_429_locks_ten_seconds:
  assumes "map_of (accounts m) accountId = Some account"
    and "JSON_parse env resource_exhausted_body = Some resource_exhausted_json"
    and "parseRetryDelay env resource_exhausted_body None = None"
    and "getCachedResetTime env accountId modelId = None"
    and "0 \<le> now env"
  shows "parseRateLimitReason (JSON_parse env) 429 resource_exhausted_body = quota_exhausted
       \<and> fst (markRateLimitedFromError env accountId 429 resource_exhausted_body None modelId
                maxDurationMs m) = Some (quota_exhausted, 10000)
       \<and> map_of (accounts (snd (markRateLimitedFromError env accountId 429
                resource_exhausted_body None modelId maxDurationMs m))) accountId
           = Some (record_lockout (getModelCategory modelId) modelId (now env + 10000) account)
       \<and> defaultRateLimitMs quota_exhausted 1 = 300000"
proof -
  have r: "parseRateLimitReason (JSON_parse env) 429 resource_exhausted_body = quota_exhausted"
    using assms(2) by (rule classify_resource_exhausted)
  have d: "lockout_duration env account accountId 429 resource_exhausted_body None modelId
             maxDurationMs = (quota_exhausted, 10000, now env + 10000)"
    using r assms(3,4,5)
    by (simp add: lockout_duration_def Let_def falsy_time_def split: option.splits)
  show ?thesis
    using r d assms(1)
    by (simp add: markRateLimitedFromError_def defaultRateLimitMs_def)
qed

theorem quota_429_locks_ten_seconds_witness:
  "parseRateLimitReason (JSON_parse sample_env) 429 resource_exhausted_body = quota_exhausted
   \<and> fst (markRateLimitedFromError sample_env ''A'' 429 resource_exhausted_body None None None
            one_account) = Some (quota_exhausted, 10000)
   \<and> (\<exists>a. map_of (accounts (snd (markRateLimitedFromError sample_env ''A'' 429
            resource_exhausted_body None None None one_account))) ''A'' = Some a
          \<and> rateLimitedUntil a = Some 1010000 \<and> consecutiveFailures a = 1)
   \<and> defaultRateLimitMs quota_exhausted 1 = 300000"
proof -
  have h2: "JSON_parse sample_env resource_exhausted_body = Some resource_exhausted_json"
    by (simp add: sample_env_def sample_JSON_parse_def)
  have h3: "parseRetryDelay sample_env resource_exhausted_body None = None"
    by (simp add: sample_env_def no_retry_delay_def)
  have h4: "getCachedResetTime sample_env ''A'' None = None"
    by (simp add: getCachedResetTime_def given_def)
  have h5: "0 \<le> now sample_env" by (simp add: sample_env_def)
  have c: "getModelCategory None = cat_unknown" by (simp add: getModelCategory_def)
  have n: "now sample_env + 10000 = 1010000" by (simp add: sample_env_def)
  show ?thesis
    using quota_429_locks_ten_seconds [OF one_account_A h2 h3 h4 h5, of None] c n
    by (simp add: record_lockout_def fresh_account_def)
qed


text \<open>More generally, no failure classified \<open>quota_exhausted\<close> ever takes its duration
  from the cool-down policy: the classification implies status 429, and for status 429 the
  duration is the distance to the cached reset time, or derived from the retry delay, or
  10000 ms.\<close>

lemma quota_exhausted_only_for_429:
  "parseRateLimitReason jp statusCode errorText = quota_exhausted \<Longrightarrow> statusCode = 429"
  by (auto simp: parseRateLimitReason_def split: if_splits)

lemma quota_exhausted_never_uses_policy:
  assumes "parseRateLimitReason (JSON_parse env) statusCode errorText = quota_exhausted"
    and "0 \<le> now env"
  shows "\<exists>d. lockout_duration env account accountId statusCode errorText hdr modelId cap
               = (quota_exhausted, d, now env + d)
           \<and> (d = 10000
              \<or> (\<exists>r. parseRetryDelay env errorText hdr = Some r \<and> d = max (r + 500) 2000)
              \<or> (\<exists>c. getCachedResetTime env accountId modelId = Some c \<and> d = c - now env))"
proof -
  have s: "statusCode = 429" using assms(1) by (rule quota_exhausted_only_for_429)
  show ?thesis
    using assms s
    by (auto simp: lockout_duration_def Let_def falsy_time_def max_def split: option.splits)
qed


end
